theory Spec2Isabelle
  imports Main
begin

unbundle bit_operations_syntax

section \<open>Python values the module works with\<close>

subsection \<open>Strings\<close>

text \<open>
  Strings are the text strings of Python 3, \<open>str\<close>. A \<open>char\<close> is one of the code points
  below 256; text with other characters is outside the model. \<open>c.isspace()\<close> holds for twelve
  of these code points: the six ASCII white-space characters, the four separators
  \<open>0x1C\<close> to \<open>0x1F\<close>, \<open>0x85\<close> and \<open>0xA0\<close>. \<open>str.strip()\<close> removes the characters with
  \<open>isspace\<close> at both ends.
\<close>

definition isspace :: "char \<Rightarrow> bool" where
  "isspace c = (c \<in> set [CHR 0x09, CHR 0x0A, CHR 0x0B, CHR 0x0C, CHR 0x0D,
                           CHR 0x1C, CHR 0x1D, CHR 0x1E, CHR 0x1F, CHR 0x20, CHR 0x85, CHR 0xA0])"

definition strip :: "string \<Rightarrow> string" where
  "strip s = rev (dropWhile isspace (rev (dropWhile isspace s)))"

definition startswith :: "string \<Rightarrow> string \<Rightarrow> bool" where
  "startswith s p = (take (length p) s = p)"

definition endswith :: "string \<Rightarrow> string \<Rightarrow> bool" where
  "endswith s p = (length p \<le> length s \<and> drop (length s - length p) s = p)"

text \<open>\<open>str(n)\<close> and \<open>'{}'.format(n)\<close> for an integer: decimal digits, a minus sign first.\<close>

definition digit_char :: "nat \<Rightarrow> char" where
  "digit_char d = ''0123456789'' ! d"

fun str_nat :: "nat \<Rightarrow> string" where
  "str_nat n = (if n < 10 then [digit_char n] else str_nat (n div 10) @ [digit_char (n mod 10)])"

declare str_nat.simps [simp del]

definition str_int :: "int \<Rightarrow> string" where
  "str_int i = (if i < 0 then CHR ''-'' # str_nat (nat (- i)) else str_nat (nat i))"

subsection \<open>JSON documents\<close>

text \<open>
  The values \<open>json.dump\<close> writes and \<open>json.load\<close> returns here: strings, and objects with
  string keys (a Python \<open>dict\<close>, kept as an association list in key order, the order
  \<open>sort_keys=True\<close> writes).
\<close>

datatype json = JStr string | JObj "(string \<times> json) list"

subsection \<open>Exceptions\<close>

datatype errno = ENOENT | EEXIST | ENOTDIR | EISDIR | EACCES

text \<open>
  Every exception the module raises or lets through. \<open>Exception\<close> carries its message,
  \<open>EdenError\<close> the \<open>message\<close> field of the service's error, \<open>OSError\<close> and \<open>IOError\<close> the
  error number and the path they were raised for. \<open>IOError\<close> is the error of \<open>open\<close>, \<open>OSError\<close>
  that of \<open>os.mkdir\<close> and \<open>os.stat\<close>: in Python 3 the two names denote one class, and the one
  handler of the module, in \<open>_get_or_create_dir\<close>, sees the errors of \<open>os.makedirs\<close> only.
  \<open>ValueError\<close> is raised for a document that does not parse and for a path with a NUL
  character.
\<close>

datatype error =
    Exception string
  | EdenStartError string
  | EdenError string
  | TException string
  | EdenNotRunningError
  | OSError errno string
  | IOError errno string
  | ValueError
  | KeyError string
  | TypeError

section \<open>The operating system\<close>

subsection \<open>\<open>posixpath\<close>\<close>

text \<open>\<open>os.path.join(a, b)\<close>: an absolute \<open>b\<close> replaces \<open>a\<close>; otherwise one slash separates them.\<close>

definition posix_join :: "string \<Rightarrow> string \<Rightarrow> string" where
  "posix_join a b =
     (if startswith b ''/'' then b
      else if a = [] \<or> endswith a ''/'' then a @ b
      else a @ ''/'' @ b)"

text \<open>
  \<open>os.path.split(p)\<close>: the tail is what follows the last slash; the head is what precedes
  it, without its trailing slashes unless it consists of slashes only.
\<close>

definition posix_split :: "string \<Rightarrow> string \<times> string" where
  "posix_split p =
     (let tail = rev (takeWhile (\<lambda>c. c \<noteq> CHR ''/'') (rev p));
          head = rev (dropWhile (\<lambda>c. c \<noteq> CHR ''/'') (rev p))
      in (if head \<noteq> [] \<and> (\<exists>c \<in> set head. c \<noteq> CHR ''/'')
          then rev (dropWhile (\<lambda>c. c = CHR ''/'') (rev head)) else head,
          tail))"

definition dirname :: "string \<Rightarrow> string" where
  "dirname p = fst (posix_split p)"

subsection \<open>The file system\<close>

text \<open>
  A file holds the chunks written to it, in order: text written with \<open>f.write\<close>, or a
  document written with \<open>json.dump\<close>. The \<open>json\<close> library is not part of the module:
  \<open>json.load\<close> gives back the document \<open>json.dump\<close> wrote (white space around it is
  allowed), and fails on any other content.
\<close>

datatype chunk = Chars string | Doc json

datatype node = Dir | File "chunk list"

type_synonym path = "string list"

text \<open>What the module does to the world outside it, in the order it does it.\<close>

record MountInfo =
  mountPoint :: string
  edenClientPath :: string

datatype rpc_call =
    CallMount MountInfo
  | CallUnmount string
  | CallCheckOutRevision string string
  | CallGetPid
  | CallGetStatus

datatype event =
    EvMkdir path
  | EvWrite path
  | EvRpc rpc_call
  | EvGeteuid
  | EvStat string
  | EvEnviron
  | EvExecve "string list" "string \<Rightarrow> string option"
  | EvPopen "string list" "string \<Rightarrow> string option"
  | EvPoll
  | EvSleep nat

text \<open>
  The state: the directory tree (a node for each path below the root), the working
  directory, the trace of events, and the time in milliseconds. Symbolic links,
  permissions and limits on the length of a name are not modelled.
\<close>

record world =
  fs :: "path \<Rightarrow> node option"
  cwd :: path
  events :: "event list"
  clock :: nat

text \<open>\<open>s.split('/')\<close>.\<close>

fun split_slash :: "string \<Rightarrow> string list" where
  "split_slash [] = [[]]"
| "split_slash (c # cs) =
     (if c = CHR ''/'' then [] # split_slash cs
      else (case split_slash cs of [] \<Rightarrow> [[c]] | x # xs \<Rightarrow> (c # x) # xs))"

text \<open>The root directory always exists.\<close>

definition node_at :: "world \<Rightarrow> path \<Rightarrow> node option" where
  "node_at w p = (if p = [] then Some Dir else fs w p)"

text \<open>
  Path resolution, as the kernel does it, component by component. Before a component is
  looked at, the place reached so far must be a directory: \<open>ENOENT\<close> if nothing is there,
  \<open>ENOTDIR\<close> if a regular file is. Then an empty component and \<open>.\<close> stay, \<open>..\<close> steps up
  (the root is its own parent), a name steps down. Whether anything is at the place
  reached by the last component is for the caller to see.
\<close>

definition step :: "path \<Rightarrow> string \<Rightarrow> path" where
  "step p c = (if c = [] \<or> c = ''.'' then p else if c = ''..'' then butlast p else p @ [c])"

fun walk :: "world \<Rightarrow> path \<Rightarrow> string list \<Rightarrow> errno + path" where
  "walk w p [] = Inr p"
| "walk w p (c # cs) =
     (case node_at w p of
        None \<Rightarrow> Inl ENOENT
      | Some (File x) \<Rightarrow> Inl ENOTDIR
      | Some Dir \<Rightarrow> walk w (step p c) cs)"

text \<open>
  A path with a leading slash starts at the root, any other at the working directory; the
  empty path names nothing.
\<close>

definition start :: "world \<Rightarrow> string \<Rightarrow> path" where
  "start w s = (if startswith s ''/'' then [] else cwd w)"

definition resolve :: "world \<Rightarrow> string \<Rightarrow> errno + path" where
  "resolve w s = (if s = [] then Inl ENOENT else walk w (start w s) (split_slash s))"

text \<open>
  Where an entry is to be made (\<open>mkdir\<close>, \<open>open\<close> for writing), the slashes at the end of the
  path are not walked: \<open>os.mkdir('a/b/')\<close> makes \<open>b\<close> in \<open>a\<close>.
\<close>

definition resolve_entry :: "world \<Rightarrow> string \<Rightarrow> errno + path" where
  "resolve_entry w s =
     (if s = [] then Inl ENOENT
      else walk w (start w s) (rev (dropWhile (\<lambda>c. c = []) (rev (split_slash s)))))"

text \<open>What \<open>os.stat(s)\<close> finds at a path: the node there, or the error number.\<close>

definition lookup :: "world \<Rightarrow> string \<Rightarrow> errno + node" where
  "lookup w s =
     (case resolve w s of
        Inl e \<Rightarrow> Inl e
      | Inr p \<Rightarrow> (case node_at w p of None \<Rightarrow> Inl ENOENT | Some n \<Rightarrow> Inr n))"

text \<open>
  Python does not hand a path with a NUL character to the operating system: \<open>os.mkdir\<close>
  and \<open>open\<close> raise \<open>ValueError\<close>, and the tests of \<open>os.path\<close>, which catch \<open>OSError\<close> and
  \<open>ValueError\<close> of \<open>os.stat\<close>, are false.
\<close>

definition embedded_null :: "string \<Rightarrow> bool" where
  "embedded_null s = (CHR 0x00 \<in> set s)"

definition isdir :: "world \<Rightarrow> string \<Rightarrow> bool" where
  "isdir w s = (\<not> embedded_null s \<and> lookup w s = Inr Dir)"

definition isfile :: "world \<Rightarrow> string \<Rightarrow> bool" where
  "isfile w s =
     (\<not> embedded_null s
      \<and> (case lookup w s of Inr (File c) \<Rightarrow> True | Inr Dir \<Rightarrow> False | Inl e \<Rightarrow> False))"

definition path_exists :: "world \<Rightarrow> string \<Rightarrow> bool" where
  "path_exists w s =
     (\<not> embedded_null s \<and> (case lookup w s of Inr n \<Rightarrow> True | Inl e \<Rightarrow> False))"

text \<open>\<open>os.mkdir(s)\<close>.\<close>

definition mkdir :: "string \<Rightarrow> world \<Rightarrow> (error + unit) \<times> world" where
  "mkdir s w =
     (if embedded_null s then (Inl ValueError, w)
      else (case resolve_entry w s of
              Inl e \<Rightarrow> (Inl (OSError e s), w)
            | Inr p \<Rightarrow>
                if node_at w p \<noteq> None then (Inl (OSError EEXIST s), w)
                else (Inr (), w\<lparr>fs := (fs w)(p \<mapsto> Dir), events := events w @ [EvMkdir p]\<rparr>)))"

text \<open>
  \<open>os.makedirs(name)\<close>: the head of the path is created first when it does not exist (a
  head that someone else has created meanwhile, \<open>FileExistsError\<close>, is accepted), then the
  leaf with \<open>mkdir\<close>.
\<close>

definition makedirs_split :: "string \<Rightarrow> string \<times> string" where
  "makedirs_split name =
     (if snd (posix_split name) = [] then posix_split (fst (posix_split name))
      else posix_split name)"

function makedirs :: "string \<Rightarrow> world \<Rightarrow> (error + unit) \<times> world" where
  "makedirs name w =
     (if fst (makedirs_split name) \<noteq> [] \<and> snd (makedirs_split name) \<noteq> []
         \<and> \<not> path_exists w (fst (makedirs_split name))
      then (case makedirs (fst (makedirs_split name)) w of
              (Inl (OSError e p), w') \<Rightarrow>
                if e \<noteq> EEXIST then (Inl (OSError e p), w')
                else if snd (makedirs_split name) = ''.'' then (Inr (), w')
                else mkdir name w'
            | (Inl other, w') \<Rightarrow> (Inl other, w')
            | (Inr u, w') \<Rightarrow>
                if snd (makedirs_split name) = ''.'' then (Inr (), w')
                else mkdir name w')
      else mkdir name w)"
  by pat_completeness auto
termination
proof (relation "measure (\<lambda>(name, w). length name)")
  show "wf (measure (\<lambda>(name, w). length name))"
    by simp
next
  fix name :: string and w :: world
  let ?N = "\<lambda>c. c \<noteq> CHR ''/''"
  assume "fst (makedirs_split name) \<noteq> [] \<and> snd (makedirs_split name) \<noteq> []
            \<and> \<not> path_exists w (fst (makedirs_split name))"
  then have tail: "0 < length (snd (makedirs_split name))"
    by simp
  have split: "length (fst (posix_split p)) + length (snd (posix_split p)) \<le> length p" for p
  proof -
    have "length (dropWhile (\<lambda>c. c = CHR ''/'') (rev (rev (dropWhile ?N (rev p)))))
            \<le> length (dropWhile ?N (rev p))"
      by (metis length_dropWhile_le length_rev)
    moreover have "length (takeWhile ?N (rev p)) + length (dropWhile ?N (rev p)) = length p"
      by (metis length_append length_rev takeWhile_dropWhile_id)
    ultimately show ?thesis
      by (simp add: posix_split_def Let_def)
  qed
  have "length (fst (makedirs_split name)) < length name"
  proof (cases "snd (posix_split name) = []")
    case True
    with tail have "0 < length (snd (posix_split (fst (posix_split name))))"
      by (simp add: makedirs_split_def)
    with split [of name] split [of "fst (posix_split name)"]
    have "length (fst (posix_split (fst (posix_split name)))) < length name"
      by linarith
    with True show ?thesis
      by (simp add: makedirs_split_def)
  next
    case False
    with tail have "0 < length (snd (posix_split name))"
      by simp
    with split [of name] have "length (fst (posix_split name)) < length name"
      by linarith
    with False show ?thesis
      by (simp add: makedirs_split_def)
  qed
  then show "((fst (makedirs_split name), w), name, w) \<in> measure (\<lambda>(name, w). length name)"
    by simp
qed

declare makedirs.simps [simp del]

text \<open>
  \<open>json.dumps(doc, indent=2, sort_keys=True)\<close>: the text of a document, needed only when
  a file that holds a document is read as text.
\<close>

definition hex_digit :: "nat \<Rightarrow> char" where
  "hex_digit d = ''0123456789abcdef'' ! d"

definition json_escape :: "char \<Rightarrow> string" where
  "json_escape c =
     (if c = CHR 0x22 then [CHR 0x5C, CHR 0x22]
      else if c = CHR 0x5C then [CHR 0x5C, CHR 0x5C]
      else if c = CHR 0x0A then [CHR 0x5C, CHR ''n'']
      else if c = CHR 0x0D then [CHR 0x5C, CHR ''r'']
      else if c = CHR 0x09 then [CHR 0x5C, CHR ''t'']
      else if c = CHR 0x08 then [CHR 0x5C, CHR ''b'']
      else if c = CHR 0x0C then [CHR 0x5C, CHR ''f'']
      else if of_char c < (32::nat) \<or> (126::nat) < of_char c
        then [CHR 0x5C, CHR ''u'', CHR ''0'', CHR ''0'',
              hex_digit (of_char c div 16), hex_digit (of_char c mod 16)]
      else [c])"

definition json_string :: "string \<Rightarrow> string" where
  "json_string s = [CHR 0x22] @ concat (map json_escape s) @ [CHR 0x22]"

fun join_with :: "string \<Rightarrow> string list \<Rightarrow> string" where
  "join_with sep [] = []"
| "join_with sep [x] = x"
| "join_with sep (x # y # ys) = x @ sep @ join_with sep (y # ys)"

fun json_dumps :: "nat \<Rightarrow> json \<Rightarrow> string" where
  "json_dumps lvl (JStr s) = json_string s"
| "json_dumps lvl (JObj kvs) =
     (if kvs = [] then ''{}''
      else ''{'' @ [CHR 0x0A]
        @ join_with ('','' @ [CHR 0x0A])
            (map (\<lambda>kv. replicate (2 * Suc lvl) CHR '' '' @ json_string (fst kv) @ '': ''
                        @ json_dumps (Suc lvl) (snd kv)) kvs)
        @ [CHR 0x0A] @ replicate (2 * lvl) CHR '' '' @ ''}'')"

fun chunk_text :: "chunk \<Rightarrow> string" where
  "chunk_text (Chars s) = s"
| "chunk_text (Doc j) = json_dumps 0 j"

text \<open>
  Files are opened in text mode. \<open>f.read()\<close> gives the text of the file with its line ends
  translated: a carriage return, alone or before a line feed, is read as a line feed.
  Writing translates nothing (the line separator of the system is the line feed), and
  the encoding is taken to hold every character (UTF-8).
\<close>

fun universal_newlines :: "string \<Rightarrow> string" where
  "universal_newlines [] = []"
| "universal_newlines [c] = [if c = CHR 0x0D then CHR 0x0A else c]"
| "universal_newlines (c # d # s) =
     (if c = CHR 0x0D \<and> d = CHR 0x0A then CHR 0x0A # universal_newlines s
      else (if c = CHR 0x0D then CHR 0x0A else c) # universal_newlines (d # s))"

definition read_text :: "chunk list \<Rightarrow> string" where
  "read_text cs = universal_newlines (concat (map chunk_text cs))"

text \<open>
  \<open>json.load(f)\<close> on an open file. Around the document the parser accepts space, tab,
  line feed and carriage return.
\<close>

definition json_space :: "char \<Rightarrow> bool" where
  "json_space c = (c = CHR '' '' \<or> c = CHR 0x09 \<or> c = CHR 0x0A \<or> c = CHR 0x0D)"

fun blank :: "chunk \<Rightarrow> bool" where
  "blank (Chars s) = list_all json_space s"
| "blank (Doc j) = False"

definition json_load :: "chunk list \<Rightarrow> error + json" where
  "json_load cs =
     (case filter (\<lambda>c. \<not> blank c) cs of
        [Doc j] \<Rightarrow> Inr j
      | _ \<Rightarrow> Inl ValueError)"

text \<open>\<open>open(s)\<close> for reading: the content of the file.\<close>

definition open_read :: "string \<Rightarrow> world \<Rightarrow> error + chunk list" where
  "open_read s w =
     (if embedded_null s then Inl ValueError
      else (case lookup w s of
              Inl e \<Rightarrow> Inl (IOError e s)
            | Inr Dir \<Rightarrow> Inl (IOError EISDIR s)
            | Inr (File c) \<Rightarrow> Inr c))"

text \<open>
  \<open>with open(s, 'w') as f:\<close> and what is written to \<open>f\<close>; \<open>open(s, 'a')\<close> and what is
  written after the content already there. A path that ends in a slash, or names a
  directory, is refused with \<open>EISDIR\<close>.
\<close>

definition write_file :: "string \<Rightarrow> chunk list \<Rightarrow> world \<Rightarrow> (error + unit) \<times> world" where
  "write_file s c w =
     (if embedded_null s then (Inl ValueError, w)
      else (case resolve_entry w s of
              Inl e \<Rightarrow> (Inl (IOError e s), w)
            | Inr p \<Rightarrow>
                if endswith s ''/'' \<or> node_at w p = Some Dir then (Inl (IOError EISDIR s), w)
                else (Inr (), w\<lparr>fs := (fs w)(p \<mapsto> File c), events := events w @ [EvWrite p]\<rparr>)))"

definition append_file :: "string \<Rightarrow> chunk list \<Rightarrow> world \<Rightarrow> (error + unit) \<times> world" where
  "append_file s c w =
     (if embedded_null s then (Inl ValueError, w)
      else (case resolve_entry w s of
              Inl e \<Rightarrow> (Inl (IOError e s), w)
            | Inr p \<Rightarrow>
                if endswith s ''/'' then (Inl (IOError EISDIR s), w)
                else (case node_at w p of
                        Some Dir \<Rightarrow> (Inl (IOError EISDIR s), w)
                      | Some (File old) \<Rightarrow>
                          (Inr (), w\<lparr>fs := (fs w)(p \<mapsto> File (old @ c)),
                                      events := events w @ [EvWrite p]\<rparr>)
                      | None \<Rightarrow>
                          (Inr (), w\<lparr>fs := (fs w)(p \<mapsto> File c),
                                      events := events w @ [EvWrite p]\<rparr>))))"

subsection \<open>The service, seen through its RPC interface\<close>

text \<open>
  \<open>fb_status\<close> of the fb303 interface. A call returns, raises the service's application
  error \<open>EdenService.EdenError\<close> (with its message), or raises another
  \<open>thrift.Thrift.TException\<close> (with its text); \<open>EdenError\<close> is a \<open>TException\<close> too.
\<close>

datatype fb_status = DEAD | STARTING | ALIVE | STOPPING | STOPPED | WARNING

datatype 'a reply = Returns 'a | RaisesEdenError string | RaisesTException string

text \<open>
  The service at one moment: whether a client can connect to it
  (\<open>eden.thrift.create_thrift_client\<close> raises \<open>EdenNotRunningError\<close> otherwise), and how it
  answers each call.
\<close>

record daemon =
  reachable :: bool
  on_mount :: "MountInfo \<Rightarrow> unit reply"
  on_unmount :: "string \<Rightarrow> unit reply"
  on_checkOutRevision :: "string \<Rightarrow> string \<Rightarrow> unit reply"
  on_getPid :: "int reply"
  on_getStatus :: "fb_status reply"

definition log_event :: "event \<Rightarrow> world \<Rightarrow> world" where
  "log_event e w = w\<lparr>events := events w @ [e]\<rparr>"

text \<open>What the process can ask its host: user id, \<open>os.stat\<close>, \<open>os.environ\<close>, the time of day.\<close>

record host =
  euid :: nat
  stat_uid_mode :: "string \<Rightarrow> (nat \<times> nat) option"
  environ :: "(string \<times> string) list"
  timestamp :: string

section \<open>The module \<open>eden/fs/cli/config.py\<close>\<close>

definition CLIENTS_DIR :: string where
  "CLIENTS_DIR = ''clients''"

definition STORAGE_DIR :: string where
  "STORAGE_DIR = ''storage''"

definition ROCKS_DB_DIR :: string where
  "ROCKS_DB_DIR = posix_join STORAGE_DIR ''rocks-db''"

definition CONFIG_JSON :: string where
  "CONFIG_JSON = ''config.json''"

definition SNAPSHOT :: string where
  "SNAPSHOT = ''SNAPSHOT''"

subsection \<open>Module-level helpers\<close>

definition mount_point_message :: "string \<Rightarrow> string \<Rightarrow> string" where
  "mount_point_message parent_dir mount_point =
     parent_dir @ '' must be a directory in order to mount a client at '' @ mount_point
       @ ''. If this is the correct location, run `mkdir -p '' @ parent_dir
       @ ''` to create the directory.''"

definition verify_mount_point :: "string \<Rightarrow> world \<Rightarrow> (error + unit) \<times> world" where
  "verify_mount_point mount_point w =
     (if isdir w mount_point then (Inr (), w)
      else if isdir w (dirname mount_point) then mkdir mount_point w
      else (Inl (Exception (mount_point_message (dirname mount_point) mount_point)), w))"

definition get_or_create_dir :: "string \<Rightarrow> world \<Rightarrow> (error + string) \<times> world" where
  "get_or_create_dir path w =
     (case makedirs path w of
        (Inl (OSError e p), w') \<Rightarrow>
          if e \<noteq> EEXIST then (Inl (OSError e p), w') else (Inr path, w')
      | (Inl other, w') \<Rightarrow> (Inl other, w')
      | (Inr u, w') \<Rightarrow> (Inr path, w'))"

subsection \<open>\<open>HealthStatus\<close>\<close>

record HealthStatus =
  hs_status :: fb_status
  hs_pid :: "int option"
  hs_detail :: string

definition is_healthy :: "HealthStatus \<Rightarrow> bool" where
  "is_healthy h = (hs_status h = ALIVE)"

subsection \<open>\<open>Config\<close>: the client registry\<close>

text \<open>
  A \<open>Config\<close> object holds one field, \<open>_config_dir\<close>; every method takes it as its first
  argument here. The leading underscore of a private name is dropped.
\<close>

definition get_clients_dir :: "string \<Rightarrow> string" where
  "get_clients_dir config_dir = posix_join config_dir CLIENTS_DIR"

definition get_log_path :: "string \<Rightarrow> string" where
  "get_log_path config_dir = posix_join (posix_join config_dir ''logs'') ''edenfs.log''"

definition get_or_create_path_to_rocks_db :: "string \<Rightarrow> world \<Rightarrow> (error + string) \<times> world" where
  "get_or_create_path_to_rocks_db config_dir w =
     get_or_create_dir (posix_join config_dir ROCKS_DB_DIR) w"

definition get_or_create_write_dir :: "string \<Rightarrow> string \<Rightarrow> world \<Rightarrow> (error + string) \<times> world" where
  "get_or_create_write_dir config_dir client_name w =
     get_or_create_dir
       (posix_join (posix_join (get_clients_dir config_dir) client_name) ''local'') w"

text \<open>\<open>d[key]\<close> on a loaded document.\<close>

fun getitem :: "json \<Rightarrow> string \<Rightarrow> error + json" where
  "getitem (JObj kvs) key = (case map_of kvs key of None \<Rightarrow> Inl (KeyError key) | Some v \<Rightarrow> Inr v)"
| "getitem (JStr s) key = Inl TypeError"

text \<open>The ordered mapping \<open>get_client_info\<close> returns, one field for each of its four keys.\<close>

record client_info =
  info_bind_mounts :: json
  info_mount :: json
  info_snapshot :: string
  info_client_dir :: string

definition no_such_client :: "string \<Rightarrow> error" where
  "no_such_client name = Exception (''Error: no such client '' @ [CHR 0x22] @ name @ [CHR 0x22])"

definition get_client_info :: "string \<Rightarrow> string \<Rightarrow> world \<Rightarrow> error + client_info" where
  "get_client_info config_dir name w =
     (let client_dir = posix_join (get_clients_dir config_dir) name in
      if \<not> isdir w client_dir then Inl (no_such_client name)
      else
        (case open_read (posix_join client_dir CONFIG_JSON) w of
           Inl e \<Rightarrow> Inl e
         | Inr f \<Rightarrow>
        (case json_load f of
           Inl e \<Rightarrow> Inl e
         | Inr config_data \<Rightarrow>
        (case open_read (posix_join client_dir SNAPSHOT) w of
           Inl e \<Rightarrow> Inl e
         | Inr sf \<Rightarrow>
        (case getitem config_data ''bind-mounts'' of
           Inl e \<Rightarrow> Inl e
         | Inr bind_mounts \<Rightarrow>
        (case getitem config_data ''mount'' of
           Inl e \<Rightarrow> Inl e
         | Inr mount_point \<Rightarrow>
             Inr \<lparr>info_bind_mounts = bind_mounts, info_mount = mount_point,
                  info_snapshot = strip (read_text sf), info_client_dir = client_dir\<rparr>))))))"

definition already_exists :: "string \<Rightarrow> error" where
  "already_exists name = Exception (''Error: client '' @ name @ '' already exists.'')"

text \<open>
  \<open>snapshot_id\<close> is a string or \<open>None\<close>; \<open>if snapshot_id:\<close> holds for a non-empty string
  only. The four entries of \<open>config_data\<close> stand in the order \<open>sort_keys=True\<close> writes.
\<close>

definition create_client ::
  "string \<Rightarrow> string \<Rightarrow> string \<Rightarrow> string option \<Rightarrow> string \<Rightarrow> string \<Rightarrow> bool \<Rightarrow> world
     \<Rightarrow> (error + unit) \<times> world" where
  "create_client config_dir name mount_point snapshot_id repo_type repo_source with_buck w =
     (case verify_mount_point mount_point w of
        (Inl e, w1) \<Rightarrow> (Inl e, w1)
      | (Inr u1, w1) \<Rightarrow>
     (let client_dir = posix_join (get_clients_dir config_dir) name in
      if isdir w1 client_dir then (Inl (already_exists name), w1)
      else
     (case makedirs client_dir w1 of
        (Inl e, w2) \<Rightarrow> (Inl e, w2)
      | (Inr u2, w2) \<Rightarrow>
     (let client_config = posix_join client_dir CONFIG_JSON;
          bind_mounts_dir = posix_join client_dir ''bind-mounts'' in
     (case makedirs bind_mounts_dir w2 of
        (Inl e, w3) \<Rightarrow> (Inl e, w3)
      | (Inr u3, w3) \<Rightarrow>
     (case (if with_buck then makedirs (posix_join bind_mounts_dir ''buck-out'') w3
            else (Inr (), w3)) of
        (Inl e, w4) \<Rightarrow> (Inl e, w4)
      | (Inr u4, w4) \<Rightarrow>
     (let bind_mounts = (if with_buck then [(''buck-out'', JStr ''buck-out'')] else []);
          config_data = JObj [(''bind-mounts'', JObj bind_mounts),
                              (''mount'', JStr mount_point),
                              (''repo_source'', JStr repo_source),
                              (''repo_type'', JStr repo_type)] in
     (case write_file client_config [Doc config_data, Chars [CHR 0x0A]] w4 of
        (Inl e, w5) \<Rightarrow> (Inl e, w5)
      | (Inr u5, w5) \<Rightarrow>
     (case snapshot_id of
        None \<Rightarrow> (Inr (), w5)
      | Some sid \<Rightarrow>
          if sid = [] then (Inr (), w5)
          else write_file (posix_join client_dir SNAPSHOT) [Chars (sid @ [CHR 0x0A])] w5)))))))))"

subsection \<open>\<open>Config\<close>: mount, unmount, checkout\<close>

definition get_thrift_client :: "daemon \<Rightarrow> error + daemon" where
  "get_thrift_client d = (if reachable d then Inr d else Inl EdenNotRunningError)"

text \<open>A value passed where the callee needs a string.\<close>

fun as_string :: "json \<Rightarrow> error + string" where
  "as_string (JStr s) = Inr s"
| "as_string (JObj kvs) = Inl TypeError"

definition checkout :: "string \<Rightarrow> daemon \<Rightarrow> string \<Rightarrow> string \<Rightarrow> world \<Rightarrow> (error + unit) \<times> world" where
  "checkout config_dir d name snapshot_id w =
     (case get_client_info config_dir name w of
        Inl e \<Rightarrow> (Inl e, w)
      | Inr info \<Rightarrow>
     (case get_thrift_client d of
        Inl e \<Rightarrow> (Inl e, w)
      | Inr client \<Rightarrow>
     (case as_string (info_mount info) of
        Inl e \<Rightarrow> (Inl e, w)
      | Inr mount_point \<Rightarrow>
     (case on_checkOutRevision client mount_point snapshot_id of
        RaisesEdenError message \<Rightarrow>
          (Inl (Exception message),
           log_event (EvRpc (CallCheckOutRevision mount_point snapshot_id)) w)
      | RaisesTException text \<Rightarrow>
          (Inl (TException text),
           log_event (EvRpc (CallCheckOutRevision mount_point snapshot_id)) w)
      | Returns u \<Rightarrow>
          (Inr (), log_event (EvRpc (CallCheckOutRevision mount_point snapshot_id)) w)))))"

definition mount :: "string \<Rightarrow> daemon \<Rightarrow> string \<Rightarrow> world \<Rightarrow> (error + unit) \<times> world" where
  "mount config_dir d name w =
     (case get_client_info config_dir name w of
        Inl e \<Rightarrow> (Inl e, w)
      | Inr info \<Rightarrow>
     (case as_string (info_mount info) of
        Inl e \<Rightarrow> (Inl e, w)
      | Inr mount_point \<Rightarrow>
     (case verify_mount_point mount_point w of
        (Inl e, w1) \<Rightarrow> (Inl e, w1)
      | (Inr u1, w1) \<Rightarrow>
     (case get_or_create_write_dir config_dir name w1 of
        (Inl e, w2) \<Rightarrow> (Inl e, w2)
      | (Inr local_dir, w2) \<Rightarrow>
     (let mount_info = \<lparr>mountPoint = mount_point, edenClientPath = info_client_dir info\<rparr> in
     (case get_thrift_client d of
        Inl e \<Rightarrow> (Inl e, w2)
      | Inr client \<Rightarrow>
     (case on_mount client mount_info of
        RaisesEdenError message \<Rightarrow>
          (Inl (Exception message), log_event (EvRpc (CallMount mount_info)) w2)
      | RaisesTException text \<Rightarrow>
          (Inl (TException text), log_event (EvRpc (CallMount mount_info)) w2)
      | Returns u \<Rightarrow> (Inr (), log_event (EvRpc (CallMount mount_info)) w2))))))))"

definition unmount :: "string \<Rightarrow> daemon \<Rightarrow> string \<Rightarrow> world \<Rightarrow> (error + unit) \<times> world" where
  "unmount config_dir d name w =
     (case get_client_info config_dir name w of
        Inl e \<Rightarrow> (Inl e, w)
      | Inr info \<Rightarrow>
     (case get_thrift_client d of
        Inl e \<Rightarrow> (Inl e, w)
      | Inr client \<Rightarrow>
     (case as_string (info_mount info) of
        Inl e \<Rightarrow> (Inl e, w)
      | Inr mount_point \<Rightarrow>
     (case on_unmount client mount_point of
        RaisesEdenError message \<Rightarrow>
          (Inl (EdenError message), log_event (EvRpc (CallUnmount mount_point)) w)
      | RaisesTException text \<Rightarrow>
          (Inl (TException text), log_event (EvRpc (CallUnmount mount_point)) w)
      | Returns u \<Rightarrow> (Inr (), log_event (EvRpc (CallUnmount mount_point)) w)))))"

subsection \<open>\<open>Config\<close>: the daemon supervisor\<close>

fun status_name :: "fb_status \<Rightarrow> string" where
  "status_name DEAD = ''DEAD''"
| "status_name STARTING = ''STARTING''"
| "status_name ALIVE = ''ALIVE''"
| "status_name STOPPING = ''STOPPING''"
| "status_name STOPPED = ''STOPPED''"
| "status_name WARNING = ''WARNING''"

text \<open>\<open>'{}'.format(pid)\<close> for a process id or \<open>None\<close>.\<close>

fun format_pid :: "int option \<Rightarrow> string" where
  "format_pid None = ''None''"
| "format_pid (Some i) = str_int i"

text \<open>
  \<open>str(ex)\<close> for an exception raised by a call. The text of an \<open>EdenError\<close> is made by
  generated code outside the module; only that it wraps the message matters here.
\<close>

definition eden_error_str :: "string \<Rightarrow> string" where
  "eden_error_str message = ''EdenError(message='' @ message @ '')''"

definition talking_error :: "fb_status \<Rightarrow> int option \<Rightarrow> string \<Rightarrow> HealthStatus" where
  "talking_error status pid text =
     \<lparr>hs_status = status, hs_pid = pid, hs_detail = ''error talking to edenfs: '' @ text\<rparr>"

definition check_health :: "daemon \<Rightarrow> world \<Rightarrow> HealthStatus \<times> world" where
  "check_health d w =
     (case get_thrift_client d of
        Inl e \<Rightarrow> (\<lparr>hs_status = DEAD, hs_pid = None, hs_detail = ''edenfs not running''\<rparr>, w)
      | Inr client \<Rightarrow>
     (case on_getPid client of
        RaisesEdenError message \<Rightarrow>
          (talking_error DEAD None (eden_error_str message), log_event (EvRpc CallGetPid) w)
      | RaisesTException text \<Rightarrow>
          (talking_error DEAD None text, log_event (EvRpc CallGetPid) w)
      | Returns pid \<Rightarrow>
     (case on_getStatus client of
        RaisesEdenError message \<Rightarrow>
          (talking_error DEAD (Some pid) (eden_error_str message),
           log_event (EvRpc CallGetStatus) (log_event (EvRpc CallGetPid) w))
      | RaisesTException text \<Rightarrow>
          (talking_error DEAD (Some pid) text,
           log_event (EvRpc CallGetStatus) (log_event (EvRpc CallGetPid) w))
      | Returns status \<Rightarrow>
          (\<lparr>hs_status = status, hs_pid = Some pid,
            hs_detail = ''edenfs running (pid '' @ str_int pid @ ''); status is ''
                          @ status_name status\<rparr>,
           log_event (EvRpc CallGetStatus) (log_event (EvRpc CallGetPid) w)))))"

definition path_dirs :: "string list" where
  "path_dirs = [''/usr/local/bin'', ''/bin'', ''/usr/bin'']"

definition preserve :: "string list" where
  "preserve = [''USER'', ''LOGNAME'', ''HOME'', ''EMAIL'', ''NAME'',
               ''SSH_AUTH_SOCK'', ''SSH_AGENT_PID'']"

text \<open>The loop over \<open>os.environ.items()\<close>, with the dictionary \<open>eden_env\<close> it fills.\<close>

fun copy_environment ::
  "(string \<times> string) list \<Rightarrow> (string \<Rightarrow> string option) \<Rightarrow> (string \<Rightarrow> string option)" where
  "copy_environment [] eden_env = eden_env"
| "copy_environment ((name, val) # items) eden_env =
     copy_environment items
       (if startswith name ''TESTPILOT_'' then eden_env(name \<mapsto> val)
        else if name \<in> set preserve then eden_env(name \<mapsto> val)
        else eden_env)"

definition build_eden_environment :: "(string \<times> string) list \<Rightarrow> (string \<Rightarrow> string option)" where
  "build_eden_environment items =
     copy_environment items [''PATH'' \<mapsto> join_with '':'' path_dirs]"

definition sleep :: "nat \<Rightarrow> world \<Rightarrow> world" where
  "sleep ms w = w\<lparr>events := events w @ [EvSleep ms], clock := clock w + ms\<rparr>"

text \<open>
  Modelled from the spec: \<open>util.poll_until\<close> is imported from a module of the repository
  that is not among the sources. The spec: the function is called "repeatedly (bounded by
  a fixed overall timeout, e.g. 5 seconds, with a short fixed interval between attempts)";
  the first result that is not \<open>None\<close> is returned, an exception of the function ends the
  poll at once, and "if the timeout elapses" without a result the poll fails with the
  exception given for that. Time passes in the sleeps only: an attempt whose result is
  \<open>None\<close> is followed by a sleep of one interval when that ends before the timeout, by a
  sleep to the timeout and the failure otherwise. \<open>poll_loop\<close> counts the time left in
  milliseconds; the interval, which the spec does not give, is a parameter.
\<close>

function poll_loop ::
  "(world \<Rightarrow> (error + 'a option) \<times> world) \<Rightarrow> nat \<Rightarrow> nat \<Rightarrow> error \<Rightarrow> world
     \<Rightarrow> (error + 'a) \<times> world" where
  "poll_loop f left interval timeout_ex w =
     (case f w of
        (Inl e, w') \<Rightarrow> (Inl e, w')
      | (Inr (Some r), w') \<Rightarrow> (Inr r, w')
      | (Inr None, w') \<Rightarrow>
          if interval = 0 \<or> left \<le> interval then (Inl timeout_ex, sleep left w')
          else poll_loop f (left - interval) interval timeout_ex (sleep interval w'))"
  by pat_completeness auto
termination
  by (relation "measure (\<lambda>(f, left, interval, timeout_ex, w). left)") auto

declare poll_loop.simps [simp del]

text \<open>
  Modelled from the spec: \<open>_wait_for_daemon_healthy\<close> gives \<open>util.poll_until\<close> its timeout in
  seconds.
\<close>

definition poll_until ::
  "(world \<Rightarrow> (error + 'a option) \<times> world) \<Rightarrow> nat \<Rightarrow> nat \<Rightarrow> error \<Rightarrow> world
     \<Rightarrow> (error + 'a) \<times> world" where
  "poll_until f timeout interval timeout_ex w = poll_loop f (1000 * timeout) interval timeout_ex w"

text \<open>
  The spawned process and the service change with time: \<open>proc_at t\<close> is what
  \<open>proc.poll()\<close> returns at time \<open>t\<close> (\<open>None\<close> while the process runs, its return code
  afterwards, negative for a signal), \<open>daemon_at t\<close> the service at time \<open>t\<close>.
\<close>

definition exited_message :: "int \<Rightarrow> string" where
  "exited_message status =
     ''edenfs exited before becoming healthy: ''
       @ (if status < 0 then ''terminated with signal '' @ str_int (- status)
          else ''exit status '' @ str_int status)"

text \<open>The local function \<open>check_health\<close> of \<open>_wait_for_daemon_healthy\<close>.\<close>

definition wait_check ::
  "(nat \<Rightarrow> daemon) \<Rightarrow> (nat \<Rightarrow> int option) \<Rightarrow> world \<Rightarrow> (error + HealthStatus option) \<times> world" where
  "wait_check daemon_at proc_at w =
     (case check_health (daemon_at (clock w)) w of
        (health_info, w1) \<Rightarrow>
          if is_healthy health_info then (Inr (Some health_info), w1)
          else (case proc_at (clock w1) of
                  Some status \<Rightarrow>
                    (Inl (EdenStartError (exited_message status)), log_event EvPoll w1)
                | None \<Rightarrow> (Inr None, log_event EvPoll w1)))"

definition timeout_ex :: error where
  "timeout_ex = EdenStartError ''timed out waiting for edenfs to become healthy''"

definition wait_for_daemon_healthy ::
  "(nat \<Rightarrow> daemon) \<Rightarrow> (nat \<Rightarrow> int option) \<Rightarrow> nat \<Rightarrow> world \<Rightarrow> (error + HealthStatus) \<times> world" where
  "wait_for_daemon_healthy daemon_at proc_at interval w =
     poll_until (wait_check daemon_at proc_at) 5 interval timeout_ex w"

definition S_ISUID :: nat where
  "S_ISUID = 2048"

text \<open>
  How \<open>spawn\<close> ends: with an exception, with the health status it returns, or, in
  foreground mode, with the process replaced by the command (\<open>os.execve\<close> does not return;
  the replacement is taken to succeed).
\<close>

datatype spawn_outcome =
    Raised error
  | Returned HealthStatus
  | Replaced "string list" "string \<Rightarrow> string option"

definition already_running :: "int option \<Rightarrow> error" where
  "already_running pid = EdenStartError (''edenfs is already running (pid '' @ format_pid pid @ '')'')"

text \<open>
  The privilege decision of \<open>spawn\<close>: the command runs under \<open>sudo\<close> unless the caller
  is root or the binary is a setuid binary of root. \<open>os.stat\<close> raises for a missing file.
\<close>

definition with_privilege ::
  "host \<Rightarrow> string \<Rightarrow> string list \<Rightarrow> world \<Rightarrow> (error + string list) \<times> world" where
  "with_privilege h daemon_binary cmd w =
     (if euid h \<noteq> 0 then
        (case stat_uid_mode h daemon_binary of
           None \<Rightarrow>
             (Inl (OSError ENOENT daemon_binary),
              log_event (EvStat daemon_binary) (log_event EvGeteuid w))
         | Some (st_uid, st_mode) \<Rightarrow>
             (Inr (if \<not> (st_uid = 0 \<and> st_mode AND S_ISUID \<noteq> 0)
                   then [''/usr/bin/sudo'', ''-E''] @ cmd else cmd),
              log_event (EvStat daemon_binary) (log_event EvGeteuid w)))
      else (Inr cmd, log_event EvGeteuid w))"

definition spawn ::
  "string \<Rightarrow> host \<Rightarrow> (nat \<Rightarrow> daemon) \<Rightarrow> (nat \<Rightarrow> int option) \<Rightarrow> nat
     \<Rightarrow> string \<Rightarrow> string list option \<Rightarrow> bool \<Rightarrow> bool \<Rightarrow> world \<Rightarrow> spawn_outcome \<times> world" where
  "spawn config_dir h daemon_at proc_at interval daemon_binary extra_args gdb foreground w =
     (case check_health (daemon_at (clock w)) w of
        (health_info, w1) \<Rightarrow>
     if is_healthy health_info then (Raised (already_running (hs_pid health_info)), w1)
     else
     (let cmd1 = [daemon_binary, ''--edenDir'', config_dir];
          cmd2 = (if gdb then [''gdb'', ''--args''] @ cmd1 else cmd1);
          foreground2 = (if gdb then True else foreground);
          cmd3 = (case extra_args of None \<Rightarrow> cmd2 | Some args \<Rightarrow> cmd2 @ args) in
     (case with_privilege h daemon_binary cmd3 w1 of
        (Inl e, w2) \<Rightarrow> (Raised e, w2)
      | (Inr cmd, w2) \<Rightarrow>
     (let eden_env = build_eden_environment (environ h);
          w3 = log_event EvEnviron w2 in
      if foreground2 then (Replaced cmd eden_env, log_event (EvExecve cmd eden_env) w3)
      else
     (let log_path = get_log_path config_dir in
     (case get_or_create_dir (dirname log_path) w3 of
        (Inl e, w4) \<Rightarrow> (Raised e, w4)
      | (Inr log_dir, w4) \<Rightarrow>
     (case append_file log_path [Chars (timestamp h @ '': starting edenfs'' @ [CHR 0x0A])] w4 of
        (Inl e, w5) \<Rightarrow> (Raised e, w5)
      | (Inr u, w5) \<Rightarrow>
     (case wait_for_daemon_healthy daemon_at proc_at interval
             (log_event (EvPopen cmd eden_env) w5) of
        (Inl e, w6) \<Rightarrow> (Raised e, w6)
      | (Inr health, w6) \<Rightarrow> (Returned health, w6)))))))))"

section \<open>Notions used in the properties\<close>

subsection \<open>Names, trees and growth\<close>

text \<open>A name that can be one component of a path: the name of a directory entry.\<close>

definition valid_name :: "string \<Rightarrow> bool" where
  "valid_name n = (n \<noteq> [] \<and> n \<noteq> ''.'' \<and> n \<noteq> ''..'' \<and> CHR ''/'' \<notin> set n)"

text \<open>In a directory tree, whatever exists lies in a directory.\<close>

definition tree :: "world \<Rightarrow> bool" where
  "tree w = (\<forall>p. p \<noteq> [] \<longrightarrow> node_at w p \<noteq> None \<longrightarrow> node_at w (butlast p) = Some Dir)"

text \<open>
  \<open>grows w w'\<close>: from \<open>w\<close> to \<open>w'\<close> nothing happened but directories being made, each at
  a path that had no node before. What existed is as it was.
\<close>

definition grows :: "world \<Rightarrow> world \<Rightarrow> bool" where
  "grows w w' =
     (cwd w' = cwd w \<and> clock w' = clock w
      \<and> (\<exists>ps. events w' = events w @ map EvMkdir ps \<and> (\<forall>p \<in> set ps. node_at w p = None))
      \<and> (\<forall>p. node_at w p \<noteq> None \<longrightarrow> node_at w' p = node_at w p))"

subsection \<open>The stages of a method\<close>

text \<open>
  Every operation that can fail is followed by the same case distinction: an exception
  ends the method, a result is handed on.
\<close>

definition then_do ::
  "(error + 'a) \<times> world \<Rightarrow> ('a \<Rightarrow> world \<Rightarrow> (error + 'b) \<times> world) \<Rightarrow> (error + 'b) \<times> world" where
  "then_do m k = (case m of (Inl e, w) \<Rightarrow> (Inl e, w) | (Inr x, w) \<Rightarrow> k x w)"

text \<open>
  The document \<open>create_client\<close> writes to \<open>config.json\<close>, and how the method ends once
  that file is written: with the \<open>SNAPSHOT\<close> file, if a snapshot id was supplied.
\<close>

definition config_document :: "string \<Rightarrow> string \<Rightarrow> string \<Rightarrow> bool \<Rightarrow> json" where
  "config_document mount_point repo_type repo_source with_buck =
     JObj [(''bind-mounts'', JObj (if with_buck then [(''buck-out'', JStr ''buck-out'')] else [])),
           (''mount'', JStr mount_point),
           (''repo_source'', JStr repo_source),
           (''repo_type'', JStr repo_type)]"

definition finish_client ::
  "string \<Rightarrow> string \<Rightarrow> string option \<Rightarrow> world \<Rightarrow> (error + unit) \<times> world" where
  "finish_client config_dir name snapshot_id w5 =
     (case snapshot_id of
        None \<Rightarrow> (Inr (), w5)
      | Some sid \<Rightarrow>
          if sid = [] then (Inr (), w5)
          else write_file (posix_join (posix_join (get_clients_dir config_dir) name) SNAPSHOT)
                 [Chars (sid @ [CHR 0x0A])] w5)"

subsection \<open>Health probes\<close>

text \<open>
  A probe reports the service healthy when it connects and both calls return, the second
  with \<open>ALIVE\<close>.
\<close>

definition probe_healthy :: "daemon \<Rightarrow> bool" where
  "probe_healthy d =
     (reachable d \<and> (case on_getPid d of Returns pid \<Rightarrow> on_getStatus d = Returns ALIVE
                      | RaisesEdenError m \<Rightarrow> False | RaisesTException m \<Rightarrow> False))"

subsection \<open>Example worlds\<close>

text \<open>
  A world to run the methods in: the root holds two directories, \<open>/r\<close> for the registry
  and \<open>/m\<close> for mount points, and nothing else.
\<close>

definition demo_world :: world where
  "demo_world = \<lparr>fs = [[''r''] \<mapsto> Dir, [''m''] \<mapsto> Dir], cwd = [], events = [], clock = 0\<rparr>"

text \<open>
  The world after the client \<open>c\<close> has been created there, with mount point \<open>/m/x\<close> and
  snapshot \<open>abc\<close>.
\<close>

definition client_world :: world where
  "client_world =
     snd (create_client ''/r'' ''c'' ''/m/x'' (Some ''abc'') ''git'' ''/src'' False demo_world)"

text \<open>The client \<open>c\<close> as \<open>create_client\<close> leaves it when it is given no snapshot id.\<close>

definition bare_client_world :: world where
  "bare_client_world =
     snd (create_client ''/r'' ''c'' ''/m/x'' None ''git'' ''/src'' False demo_world)"

text \<open>The same client with its mount point removed, and with \<open>/m\<close> removed as well.\<close>

definition unmounted_world :: world where
  "unmounted_world = client_world\<lparr>fs := (fs client_world)([''m'', ''x''] := None)\<rparr>"

definition orphan_world :: world where
  "orphan_world = unmounted_world\<lparr>fs := (fs unmounted_world)([''m''] := None)\<rparr>"

text \<open>
  The same client with a regular file at its mount point, and with another mount point
  recorded in its config document.
\<close>

definition occupied_world :: world where
  "occupied_world =
     client_world\<lparr>fs := (fs client_world)([''m'', ''x''] \<mapsto> File [Chars ''not a directory''])\<rparr>"

definition recorded_world :: "string \<Rightarrow> world" where
  "recorded_world mount_point =
     client_world\<lparr>fs := (fs client_world)
        ([''r'', ''clients'', ''c'', ''config.json'']
           \<mapsto> File [Doc (config_document mount_point ''git'' ''/src'' False),
                     Chars [CHR 0x0A]])\<rparr>"

text \<open>
  The registry \<open>/r\<close> with a regular file where the storage root should be, and with a
  regular file where the write directory of client \<open>c\<close> should be.
\<close>

definition blocked_world :: world where
  "blocked_world =
     client_world\<lparr>fs := (fs client_world)
        ([''r'', ''storage''] \<mapsto> Dir,
         [''r'', ''storage'', ''rocks-db''] \<mapsto> File [Chars ''not a directory''],
         [''r'', ''clients'', ''c'', ''local''] \<mapsto> File [Chars ''not a directory''])\<rparr>"

text \<open>
  Three services: one that accepts connections and answers every request with the
  application error \<open>no such mount\<close>, one that accepts the mount request, and one that
  cannot be reached.
\<close>

definition rejecting_daemon :: daemon where
  "rejecting_daemon =
     \<lparr>reachable = True,
      on_mount = (\<lambda>info. RaisesEdenError ''no such mount''),
      on_unmount = (\<lambda>mount_point. RaisesEdenError ''no such mount''),
      on_checkOutRevision = (\<lambda>mount_point snapshot_id. RaisesEdenError ''no such mount''),
      on_getPid = Returns 4711,
      on_getStatus = Returns ALIVE\<rparr>"

definition accepting_daemon :: daemon where
  "accepting_daemon = rejecting_daemon\<lparr>on_mount := (\<lambda>info. Returns ())\<rparr>"

definition absent_daemon :: daemon where
  "absent_daemon = rejecting_daemon\<lparr>reachable := False\<rparr>"

text \<open>An ambient environment, and a host whose user is not root.\<close>

definition demo_environ :: "(string \<times> string) list" where
  "demo_environ = [(''HOME'', ''/h''), (''RANDOM_VAR'', ''x''), (''TESTPILOT_FOO'', ''y''),
                   (''PATH'', ''/opt/bin'')]"

definition demo_host :: host where
  "demo_host = \<lparr>euid = 1000, stat_uid_mode = (\<lambda>p. Some (0, 493)), environ = demo_environ,
                timestamp = ''2016-05-01 12:00:00''\<rparr>"

section \<open>Properties of the operating system model\<close>

subsection \<open>Paths\<close>

lemma split_slash_nonempty: "split_slash s \<noteq> []"
  by (induction s) (auto split: list.splits)

lemma split_slash_plain: "CHR ''/'' \<notin> set n \<Longrightarrow> split_slash n = [n]"
  by (induction n) auto

lemma split_slash_append_slash:
  "split_slash (a @ CHR ''/'' # b) = split_slash a @ split_slash b"
  by (induction a) (auto split: list.splits simp: split_slash_nonempty)

lemma split_slash_slashes: "split_slash (replicate k CHR ''/'') = replicate (Suc k) []"
  by (induction k) auto

lemma split_slash_trailing:
  "split_slash (d @ replicate k CHR ''/'') = split_slash d @ replicate k []"
proof (cases k)
  case 0
  then show ?thesis by simp
next
  case (Suc j)
  have "split_slash (d @ CHR ''/'' # replicate j CHR ''/'') = split_slash d @ replicate (Suc j) []"
    unfolding split_slash_append_slash split_slash_slashes ..
  with Suc show ?thesis by simp
qed

lemma last_split_slash: "s \<noteq> [] \<Longrightarrow> last s \<noteq> CHR ''/'' \<Longrightarrow> last (split_slash s) \<noteq> []"
proof (induction s)
  case Nil
  then show ?case by simp
next
  case (Cons c cs)
  show ?case
  proof (cases "cs = []")
    case True
    with Cons.prems show ?thesis by simp
  next
    case False
    with Cons have "last (split_slash cs) \<noteq> []"
      by simp
    then show ?thesis
      by (auto split: list.splits simp: split_slash_nonempty)
  qed
qed

lemma startswith_slash: "startswith s ''/'' = (s \<noteq> [] \<and> hd s = CHR ''/'')"
  by (cases s) (auto simp: startswith_def)

lemma endswith_slash: "endswith s ''/'' = (s \<noteq> [] \<and> last s = CHR ''/'')"
proof (cases s rule: rev_cases)
  case Nil
  then show ?thesis by (simp add: endswith_def)
next
  case (snoc xs x)
  then show ?thesis by (auto simp: endswith_def)
qed

lemma start_prefix: "d \<noteq> [] \<Longrightarrow> start w (d @ x) = start w d"
  by (simp add: start_def startswith_slash)

lemma step_valid: "valid_name n \<Longrightarrow> step p n = p @ [n]"
  by (simp add: step_def valid_name_def)

lemma step_empty: "step p [] = p"
  by (simp add: step_def)

lemma walk_append:
  "walk w p (xs @ ys) = (case walk w p xs of Inl e \<Rightarrow> Inl e | Inr q \<Rightarrow> walk w q ys)"
  by (induction xs arbitrary: p) (auto split: option.splits node.splits)

lemma walk_empties: "walk w p (replicate k [] @ cs) = (if k = 0 then walk w p cs
     else (case node_at w p of None \<Rightarrow> Inl ENOENT | Some (File x) \<Rightarrow> Inl ENOTDIR
           | Some Dir \<Rightarrow> walk w p cs))"
  by (induction k) (auto simp: step_empty split: option.splits node.splits)

lemma walk_empties_then:
  "walk w p (replicate k [] @ [c]) = walk w p [c]"
  by (simp add: walk_empties split: option.splits node.splits)

text \<open>What a path followed by a slash and one more component names.\<close>

lemma resolve_slash:
  assumes "d \<noteq> []" and "CHR ''/'' \<notin> set t"
  shows "resolve w (d @ CHR ''/'' # t)
     = (case resolve w d of Inl e \<Rightarrow> Inl e | Inr p \<Rightarrow> walk w p [t])"
proof -
  have "split_slash (d @ CHR ''/'' # t) = split_slash d @ [t]"
    using assms(2) by (simp add: split_slash_append_slash split_slash_plain)
  moreover have "start w (d @ CHR ''/'' # t) = start w d"
    using assms(1) by (rule start_prefix)
  ultimately show ?thesis
    using assms(1) by (simp add: resolve_def walk_append)
qed

lemma resolve_root: "resolve w ''/'' = Inr []"
  by (simp add: resolve_def start_def startswith_def node_at_def step_empty)

lemma resolve_root_slash:
  assumes "CHR ''/'' \<notin> set t"
  shows "resolve w (CHR ''/'' # t) = walk w [] [t]"
proof -
  have "split_slash (CHR ''/'' # t) = [[], t]"
    using assms by (simp add: split_slash_plain)
  then show ?thesis
    by (simp add: resolve_def start_def startswith_def node_at_def step_empty)
qed

text \<open>
  The slashes at the end of a path ask for a directory and change nothing else: what is
  done in the directory the path names does not depend on them.
\<close>

lemma resolve_trailing_slashes:
  assumes "d \<noteq> []"
  shows "(case resolve w (d @ replicate k CHR ''/'') of Inl e \<Rightarrow> Inl e | Inr p \<Rightarrow> walk w p [t])
     = (case resolve w d of Inl e \<Rightarrow> Inl e | Inr p \<Rightarrow> walk w p [t])"
proof -
  have "resolve w (d @ replicate k CHR ''/'')
      = (case resolve w d of Inl e \<Rightarrow> Inl e | Inr p \<Rightarrow> walk w p (replicate k []))"
    using assms by (simp add: resolve_def split_slash_trailing walk_append start_prefix)
  moreover have "walk w p (replicate k []) = Inr q \<Longrightarrow> q = p" for p q
    using walk_empties [of w p k "[]"] by (auto split: if_splits option.splits node.splits)
  moreover have "walk w p (replicate k []) = Inl e \<Longrightarrow> walk w p [t] = Inl e" for p e
    using walk_empties [of w p k "[]"] by (auto split: if_splits option.splits node.splits)
  ultimately show ?thesis
    by (auto split: sum.splits)
qed

lemma resolve_join:
  assumes "d \<noteq> []" and "CHR ''/'' \<notin> set n"
  shows "resolve w (posix_join d n)
     = (case resolve w d of Inl e \<Rightarrow> Inl e | Inr p \<Rightarrow> walk w p [n])"
proof (cases "last d = CHR ''/''")
  case False
  with assms have "posix_join d n = d @ CHR ''/'' # n"
    by (cases n) (auto simp: posix_join_def startswith_slash endswith_slash)
  then show ?thesis
    using assms by (simp add: resolve_slash)
next
  case True
  with assms(1) obtain d' where d: "d = d' @ ''/''"
    by (metis append_butlast_last_id)
  from True assms have j: "posix_join d n = d' @ CHR ''/'' # n"
    by (cases n) (auto simp: posix_join_def startswith_slash endswith_slash d)
  show ?thesis
  proof (cases "d' = []")
    case True
    with j d have "resolve w (posix_join d n) = resolve w (CHR ''/'' # n)" and "resolve w d = Inr []"
      by (simp_all add: resolve_root)
    then show ?thesis
      using assms(2) by (simp add: resolve_root_slash)
  next
    case False
    have "resolve w d = (case resolve w d' of Inl e \<Rightarrow> Inl e | Inr p \<Rightarrow> walk w p [[]])"
      unfolding d using False by (simp add: resolve_slash)
    moreover have "resolve w (posix_join d n)
        = (case resolve w d' of Inl e \<Rightarrow> Inl e | Inr p \<Rightarrow> walk w p [n])"
      unfolding j using False assms(2) by (rule resolve_slash)
    ultimately show ?thesis
      by (auto split: sum.splits option.splits node.splits simp: step_empty)
  qed
qed

lemma resolve_trailing:
  assumes "d \<noteq> []"
  shows "resolve w (d @ replicate k CHR ''/'')
     = (case resolve w d of Inl e \<Rightarrow> Inl e | Inr p \<Rightarrow> walk w p (replicate k []))"
  using assms by (simp add: resolve_def split_slash_trailing walk_append start_prefix)

lemma walk_empties_result: "walk w p (replicate k []) = Inr q \<Longrightarrow> q = p"
  using walk_empties [of w p k "[]"] by (auto split: if_splits option.splits node.splits)

lemma walk_empties_dir: "node_at w p = Some Dir \<Longrightarrow> walk w p (replicate k []) = Inr p"
  using walk_empties [of w p k "[]"] by simp

lemma resolve_slashes: "0 < k \<Longrightarrow> resolve w (replicate k CHR ''/'') = Inr []"
proof -
  assume "0 < k"
  then have "replicate k CHR ''/'' \<noteq> []" and "start w (replicate k CHR ''/'') = []"
    by (cases k; simp add: start_def startswith_def)+
  then show ?thesis
    using walk_empties_dir [of w "[]" "Suc k"]
    by (simp add: resolve_def split_slash_slashes node_at_def del: replicate.simps)
qed

subsection \<open>Splitting a path\<close>

text \<open>A path without the slashes at its end, and these slashes.\<close>

lemma rstrip_slashes:
  obtains m where "d = rev (dropWhile (\<lambda>c. c = CHR ''/'') (rev d)) @ replicate m CHR ''/''"
proof -
  let ?P = "\<lambda>c. c = CHR ''/''"
  let ?h = "rev (dropWhile ?P (rev d))"
  let ?t = "rev (takeWhile ?P (rev d))"
  have d: "d = ?h @ ?t"
    by (metis rev_append rev_rev_ident takeWhile_dropWhile_id)
  have "replicate (length ?t) CHR ''/'' = ?t"
    by (rule replicate_length_same) (auto dest: set_takeWhileD)
  with d have "d = ?h @ replicate (length ?t) CHR ''/''"
    by simp
  then show thesis
    by (rule that)
qed

lemma rstrip_nonempty:
  "\<exists>c \<in> set d. c \<noteq> CHR ''/'' \<Longrightarrow> rev (dropWhile (\<lambda>c. c = CHR ''/'') (rev d)) \<noteq> []"
  by (auto simp: dropWhile_eq_Nil_conv)

lemma all_slashes: "\<not> (\<exists>c \<in> set h. c \<noteq> CHR ''/'') \<Longrightarrow> h = replicate (length h) CHR ''/''"
  by (rule sym, rule replicate_length_same) auto

lemma resolve_rstrip:
  assumes "resolve w d = Inr p" and "\<exists>c \<in> set d. c \<noteq> CHR ''/''"
  shows "resolve w (rev (dropWhile (\<lambda>c. c = CHR ''/'') (rev d))) = Inr p"
proof -
  let ?r = "rev (dropWhile (\<lambda>c. c = CHR ''/'') (rev d))"
  obtain m where d: "d = ?r @ replicate m CHR ''/''"
    by (rule rstrip_slashes)
  have ne: "?r \<noteq> []"
    using assms(2) by (rule rstrip_nonempty)
  have "resolve w (?r @ replicate m CHR ''/'')
      = (case resolve w ?r of Inl e \<Rightarrow> Inl e | Inr p \<Rightarrow> walk w p (replicate m []))"
    using ne by (rule resolve_trailing)
  with assms(1) d have "(case resolve w ?r of Inl e \<Rightarrow> Inl e | Inr p \<Rightarrow> walk w p (replicate m []))
      = Inr p"
    by simp
  then show ?thesis
    by (auto split: sum.splits dest: walk_empties_result)
qed

text \<open>
  \<open>os.path.split\<close> cuts a path after its last slash: the tail holds no slash, and the
  head is what stands before it, without the slashes at its end.
\<close>

lemma posix_split_parts:
  obtains h t where "s = h @ t" and "CHR ''/'' \<notin> set t" and "h = [] \<or> last h = CHR ''/''"
proof -
  let ?N = "\<lambda>c. c \<noteq> CHR ''/''"
  let ?h = "rev (dropWhile ?N (rev s))"
  let ?t = "rev (takeWhile ?N (rev s))"
  have "s = ?h @ ?t"
    by (metis rev_append rev_rev_ident takeWhile_dropWhile_id)
  moreover have "CHR ''/'' \<notin> set ?t"
    by (auto dest: set_takeWhileD)
  moreover have "?h = [] \<or> last ?h = CHR ''/''"
  proof (cases "dropWhile ?N (rev s)")
    case Nil
    then show ?thesis by simp
  next
    case (Cons c cs)
    have "\<not> ?N (hd (dropWhile ?N (rev s)))"
      by (rule hd_dropWhile) (simp add: Cons)
    with Cons show ?thesis
      by simp
  qed
  ultimately show thesis
    by (rule that)
qed

lemma posix_split_append:
  assumes "CHR ''/'' \<notin> set t" and "h = [] \<or> last h = CHR ''/''"
  shows "posix_split (h @ t)
     = (if \<exists>c \<in> set h. c \<noteq> CHR ''/'' then rev (dropWhile (\<lambda>c. c = CHR ''/'') (rev h)) else h, t)"
proof -
  let ?N = "\<lambda>c. c \<noteq> CHR ''/''"
  have tw: "takeWhile ?N (rev t @ ys) = rev t @ takeWhile ?N ys" for ys
    by (rule takeWhile_append2) (use assms(1) in auto)
  have dw: "dropWhile ?N (rev t @ ys) = dropWhile ?N ys" for ys
    by (rule dropWhile_append2) (use assms(1) in auto)
  have "takeWhile ?N (rev h) = []" and "dropWhile ?N (rev h) = rev h"
    using assms(2) by (cases "rev h"; auto simp: last_rev hd_rev)+
  then have "takeWhile ?N (rev t @ rev h) = rev t" and "dropWhile ?N (rev t @ rev h) = rev h"
    by (simp_all add: tw dw)
  then show ?thesis
    by (auto simp: posix_split_def)
qed

lemma posix_split_tail_nonempty:
  assumes "snd (posix_split s) \<noteq> []"
  shows "s \<noteq> []" and "last s \<noteq> CHR ''/''"
proof -
  obtain h t where s: "s = h @ t" and t: "CHR ''/'' \<notin> set t" and h: "h = [] \<or> last h = CHR ''/''"
    by (rule posix_split_parts)
  from assms have tne: "t \<noteq> []"
    unfolding s by (simp add: posix_split_append [OF t h])
  then show "s \<noteq> []"
    by (simp add: s)
  from tne t show "last s \<noteq> CHR ''/''"
    unfolding s by (metis last_appendR last_in_set)
qed

text \<open>
  What a path names is found in the directory that \<open>os.path.dirname\<close> names for it, under
  the name that \<open>os.path.split\<close> gives as its tail.
\<close>

lemma resolve_head_tail:
  assumes t: "CHR ''/'' \<notin> set t" and lh: "last h = CHR ''/''" and hne: "h \<noteq> []"
  shows "resolve w (h @ t)
     = (case resolve w (if \<exists>c \<in> set h. c \<noteq> CHR ''/''
                         then rev (dropWhile (\<lambda>c. c = CHR ''/'') (rev h)) else h) of
          Inl e \<Rightarrow> Inl e | Inr p \<Rightarrow> walk w p [t])"
proof (cases "\<exists>c \<in> set h. c \<noteq> CHR ''/''")
  case False
  from hne obtain k where k: "length h = Suc k"
    by (cases h) auto
  from all_slashes [OF False] have hr: "h = replicate (Suc k) CHR ''/''"
    unfolding k .
  have dn: "resolve w h = Inr []"
    unfolding hr by (rule resolve_slashes) simp
  have "resolve w (h @ t) = walk w [] [t]"
  proof (cases k)
    case 0
    with hr have "h = ''/''"
      by simp
    then show ?thesis
      using resolve_root_slash [OF t, of w] by simp
  next
    case (Suc j)
    have h': "h = replicate k CHR ''/'' @ ''/''"
      unfolding hr by (simp add: replicate_append_same)
    have "resolve w (replicate k CHR ''/'' @ CHR ''/'' # t)
        = (case resolve w (replicate k CHR ''/'') of Inl e \<Rightarrow> Inl e | Inr p \<Rightarrow> walk w p [t])"
      using Suc t by (intro resolve_slash) simp_all
    also have "\<dots> = walk w [] [t]"
      using Suc resolve_slashes [of k w] by simp
    finally show ?thesis
      by (subst h') simp
  qed
  with dn False show ?thesis
    by simp
next
  case True
  let ?r = "rev (dropWhile (\<lambda>c. c = CHR ''/'') (rev h))"
  obtain m where m: "h = ?r @ replicate m CHR ''/''"
    by (rule rstrip_slashes)
  have rne: "?r \<noteq> []"
    using True by (rule rstrip_nonempty)
  have "\<not> (hd (dropWhile (\<lambda>c. c = CHR ''/'') (rev h)) = CHR ''/'')"
    by (rule hd_dropWhile) (use rne in simp)
  then have "last ?r \<noteq> CHR ''/''"
    using rne by (simp add: last_rev)
  with lh m rne have "m \<noteq> 0"
    by (cases m) auto
  then obtain j where j: "m = Suc j"
    by (cases m) auto
  have "?r @ replicate (Suc j) CHR ''/'' = (?r @ replicate j CHR ''/'') @ ''/''"
    by (simp add: replicate_append_same)
  with m have h': "h = (?r @ replicate j CHR ''/'') @ ''/''"
    unfolding j by (rule trans)
  have "resolve w ((?r @ replicate j CHR ''/'') @ CHR ''/'' # t)
      = (case resolve w (?r @ replicate j CHR ''/'') of Inl e \<Rightarrow> Inl e
         | Inr p \<Rightarrow> walk w p [t])"
    using rne t by (intro resolve_slash) simp_all
  also have "\<dots> = (case resolve w ?r of Inl e \<Rightarrow> Inl e | Inr p \<Rightarrow> walk w p [t])"
    using rne by (rule resolve_trailing_slashes)
  finally have "resolve w (h @ t)
      = (case resolve w ?r of Inl e \<Rightarrow> Inl e | Inr p \<Rightarrow> walk w p [t])"
    by (subst h') simp
  with True show ?thesis
    by simp
qed

lemma resolve_split:
  assumes "dirname s \<noteq> []"
  shows "resolve w s
     = (case resolve w (dirname s) of Inl e \<Rightarrow> Inl e | Inr p \<Rightarrow> walk w p [snd (posix_split s)])"
proof -
  obtain h t where s: "s = h @ t" and t: "CHR ''/'' \<notin> set t" and h: "h = [] \<or> last h = CHR ''/''"
    by (rule posix_split_parts)
  note sp = posix_split_append [OF t h]
  from assms have hne: "h \<noteq> []"
    unfolding s dirname_def sp by (auto split: if_splits)
  with h have lh: "last h = CHR ''/''"
    by simp
  show ?thesis
    unfolding s dirname_def sp fst_conv snd_conv
    using t lh hne by (rule resolve_head_tail)
qed

subsection \<open>Joining and splitting\<close>

lemma posix_join_nonempty: "b \<noteq> [] \<Longrightarrow> posix_join a b \<noteq> []"
  by (simp add: posix_join_def)

lemma posix_join_nonempty_left: "a \<noteq> [] \<Longrightarrow> posix_join a b \<noteq> []"
  by (simp add: posix_join_def startswith_slash)

lemma posix_join_valid:
  assumes "valid_name n"
  shows "posix_join d n = (if d = [] \<or> last d = CHR ''/'' then d else d @ ''/'') @ n"
proof -
  from assms have "n \<noteq> []" "hd n \<noteq> CHR ''/''"
    by (cases n; auto simp: valid_name_def)+
  then show ?thesis
    by (simp add: posix_join_def startswith_slash endswith_slash)
qed

lemma posix_join_last:
  assumes "valid_name n"
  shows "posix_join d n \<noteq> []" and "last (posix_join d n) \<noteq> CHR ''/''"
    and "\<not> endswith (posix_join d n) ''/''"
proof -
  from assms have n: "n \<noteq> []" "CHR ''/'' \<notin> set n"
    by (auto simp: valid_name_def)
  then have "last n \<noteq> CHR ''/''"
    by (metis last_in_set)
  with n show "posix_join d n \<noteq> []" and l: "last (posix_join d n) \<noteq> CHR ''/''"
    by (simp_all add: posix_join_valid [OF assms])
  then show "\<not> endswith (posix_join d n) ''/''"
    by (simp add: endswith_slash)
qed

lemma posix_split_join:
  assumes "valid_name n"
  shows "posix_split (posix_join d n)
     = (if \<exists>c \<in> set d. c \<noteq> CHR ''/'' then rev (dropWhile (\<lambda>c. c = CHR ''/'') (rev d)) else d, n)"
proof -
  let ?h = "if d = [] \<or> last d = CHR ''/'' then d else d @ ''/''"
  from assms have n: "CHR ''/'' \<notin> set n"
    by (simp add: valid_name_def)
  have h: "?h = [] \<or> last ?h = CHR ''/''"
    by simp
  have "rev (dropWhile (\<lambda>c. c = CHR ''/'') (rev ?h)) = rev (dropWhile (\<lambda>c. c = CHR ''/'') (rev d))"
    by simp
  moreover have "(\<exists>c \<in> set ?h. c \<noteq> CHR ''/'') = (\<exists>c \<in> set d. c \<noteq> CHR ''/'')"
    by auto
  moreover have "\<not> (\<exists>c \<in> set d. c \<noteq> CHR ''/'') \<Longrightarrow> ?h = d"
    by (cases d rule: rev_cases) auto
  ultimately show ?thesis
    unfolding posix_join_valid [OF assms] posix_split_append [OF n h] by auto
qed

lemma makedirs_split_join:
  "valid_name n \<Longrightarrow> makedirs_split (posix_join d n) = posix_split (posix_join d n)"
  by (simp add: makedirs_split_def posix_split_join valid_name_def)

lemma dirname_empty: "dirname [] = []"
  by (simp add: dirname_def posix_split_def)

subsection \<open>Paths with a NUL character\<close>

lemma embedded_null_join:
  "\<not> startswith n ''/'' \<Longrightarrow> embedded_null (posix_join d n) = (embedded_null d \<or> embedded_null n)"
  by (auto simp: posix_join_def embedded_null_def)

lemma embedded_null_valid_join:
  "valid_name n \<Longrightarrow> embedded_null (posix_join d n) = (embedded_null d \<or> embedded_null n)"
  by (auto simp: posix_join_valid embedded_null_def)

lemma embedded_null_rstrip:
  "embedded_null (rev (dropWhile P (rev d))) \<Longrightarrow> embedded_null d"
  by (auto simp: embedded_null_def dest: set_dropWhileD)

lemma embedded_null_dirname: "embedded_null (dirname s) \<Longrightarrow> embedded_null s"
proof -
  obtain h t where s: "s = h @ t" and t: "CHR ''/'' \<notin> set t" and h: "h = [] \<or> last h = CHR ''/''"
    by (rule posix_split_parts)
  assume "embedded_null (dirname s)"
  then have "embedded_null h"
    unfolding s dirname_def posix_split_append [OF t h]
    by (auto split: if_splits dest: embedded_null_rstrip)
  then show ?thesis
    by (simp add: s embedded_null_def)
qed

lemma embedded_null_names [simp]:
  "\<not> embedded_null CONFIG_JSON" "\<not> embedded_null SNAPSHOT" "\<not> embedded_null CLIENTS_DIR"
  "\<not> embedded_null ''bind-mounts''" "\<not> embedded_null ''buck-out''"
  "\<not> embedded_null ''local''" "\<not> embedded_null ''rocks-db''" "\<not> embedded_null STORAGE_DIR"
  by (simp_all add: embedded_null_def CONFIG_JSON_def SNAPSHOT_def CLIENTS_DIR_def STORAGE_DIR_def)

subsection \<open>Where an entry is made\<close>

lemma resolve_entry_plain:
  assumes "s \<noteq> []" and "last s \<noteq> CHR ''/''"
  shows "resolve_entry w s = resolve w s"
proof -
  have "split_slash s \<noteq> []"
    by (rule split_slash_nonempty)
  moreover have "last (split_slash s) \<noteq> []"
    using assms by (rule last_split_slash)
  ultimately have "dropWhile (\<lambda>c. c = []) (rev (split_slash s)) = rev (split_slash s)"
    by (cases "rev (split_slash s)") (auto simp: last_rev hd_rev)
  then show ?thesis
    by (simp add: resolve_entry_def resolve_def)
qed

lemma resolve_entry_join:
  "valid_name n \<Longrightarrow> resolve_entry w (posix_join d n) = resolve w (posix_join d n)"
  by (simp add: resolve_entry_plain posix_join_last)

subsection \<open>Reading does not depend on the trace\<close>

lemma node_at_events_update [simp]: "node_at (w\<lparr>events := es\<rparr>) p = node_at w p"
  by (simp add: node_at_def)

lemma node_at_clock_update [simp]: "node_at (w\<lparr>clock := t\<rparr>) p = node_at w p"
  by (simp add: node_at_def)

lemma walk_same_nodes:
  "(\<And>q. node_at w' q = node_at w q) \<Longrightarrow> walk w' p cs = walk w p cs"
  by (induction cs arbitrary: p) (auto split: option.splits node.splits)

lemma walk_events_update [simp]: "walk (w\<lparr>events := es\<rparr>) p cs = walk w p cs"
  by (rule walk_same_nodes) simp

lemma walk_clock_update [simp]: "walk (w\<lparr>clock := t\<rparr>) p cs = walk w p cs"
  by (rule walk_same_nodes) simp

lemma resolve_events_update [simp]: "resolve (w\<lparr>events := es\<rparr>) s = resolve w s"
  by (simp add: resolve_def start_def)

lemma resolve_clock_update [simp]: "resolve (w\<lparr>clock := t\<rparr>) s = resolve w s"
  by (simp add: resolve_def start_def)

lemma resolve_entry_events_update [simp]: "resolve_entry (w\<lparr>events := es\<rparr>) s = resolve_entry w s"
  by (simp add: resolve_entry_def start_def)

lemma lookup_events_update [simp]: "lookup (w\<lparr>events := es\<rparr>) s = lookup w s"
  by (simp add: lookup_def split: sum.splits)

lemma isdir_events_update [simp]: "isdir (w\<lparr>events := es\<rparr>) s = isdir w s"
  by (simp add: isdir_def)

lemma isfile_events_update [simp]: "isfile (w\<lparr>events := es\<rparr>) s = isfile w s"
  by (simp add: isfile_def)

lemma path_exists_events_update [simp]: "path_exists (w\<lparr>events := es\<rparr>) s = path_exists w s"
  by (simp add: path_exists_def)

lemma open_read_events_update [simp]: "open_read s (w\<lparr>events := es\<rparr>) = open_read s w"
  by (simp add: open_read_def)

lemma get_client_info_events_update [simp]:
  "get_client_info config_dir name (w\<lparr>events := es\<rparr>) = get_client_info config_dir name w"
  by (simp add: get_client_info_def Let_def cong: if_cong sum.case_cong)

lemma isdir_log_event [simp]: "isdir (log_event e w) s = isdir w s"
  by (simp add: log_event_def)

lemma events_log_event [simp]: "events (log_event e w) = events w @ [e]"
  by (simp add: log_event_def)

lemma clock_log_event [simp]: "clock (log_event e w) = clock w"
  by (simp add: log_event_def)

subsection \<open>Directories that stay\<close>

text \<open>
  A path that resolves keeps resolving, to the same place, as long as the directories
  stay directories.
\<close>

lemma walk_mono:
  assumes "\<And>q. node_at w q = Some Dir \<Longrightarrow> node_at w' q = Some Dir"
  shows "walk w p cs = Inr r \<Longrightarrow> walk w' p cs = Inr r"
  by (induction cs arbitrary: p) (auto split: option.splits node.splits dest: assms)

lemma resolve_mono:
  assumes "cwd w' = cwd w"
    and "\<And>q. node_at w q = Some Dir \<Longrightarrow> node_at w' q = Some Dir"
    and "resolve w s = Inr r"
  shows "resolve w' s = Inr r"
  using assms(1,3) walk_mono [of w w', OF assms(2)]
  by (auto simp: resolve_def start_def split: if_splits)

lemma resolve_entry_mono:
  assumes "cwd w' = cwd w"
    and "\<And>q. node_at w q = Some Dir \<Longrightarrow> node_at w' q = Some Dir"
    and "resolve_entry w s = Inr r"
  shows "resolve_entry w' s = Inr r"
  using assms(1,3) walk_mono [of w w', OF assms(2)]
  by (auto simp: resolve_entry_def start_def split: if_splits)

subsection \<open>An entry of a directory\<close>

lemma walk_name:
  "valid_name n \<Longrightarrow> node_at w p = Some Dir \<Longrightarrow> walk w p [n] = Inr (p @ [n])"
  by (simp add: step_valid)

lemma isdir_resolves:
  assumes "isdir w d"
  obtains p where "d \<noteq> []" and "\<not> embedded_null d" and "resolve w d = Inr p"
    and "node_at w p = Some Dir"
proof -
  from assms have n: "\<not> embedded_null d" and l: "lookup w d = Inr Dir"
    by (simp_all add: isdir_def)
  from l obtain p where p: "resolve w d = Inr p" "node_at w p = Some Dir"
    by (auto simp: lookup_def split: sum.splits option.splits)
  from p(1) have "d \<noteq> []"
    by (auto simp: resolve_def)
  then show thesis
    using n p by (rule that)
qed

lemma isdir_resolved:
  "\<not> embedded_null d \<Longrightarrow> resolve w d = Inr p \<Longrightarrow> node_at w p = Some Dir \<Longrightarrow> isdir w d"
  by (simp add: isdir_def lookup_def)

lemma resolve_join_dir:
  assumes "valid_name n" and "d \<noteq> []" and "resolve w d = Inr p" and "node_at w p = Some Dir"
  shows "resolve w (posix_join d n) = Inr (p @ [n])"
proof -
  from assms(1) have "CHR ''/'' \<notin> set n"
    by (simp add: valid_name_def)
  with assms show ?thesis
    by (simp add: resolve_join step_valid)
qed

lemma resolve_join_success:
  assumes "valid_name n" and "d \<noteq> []" and "resolve w (posix_join d n) = Inr q"
  obtains p where "resolve w d = Inr p" and "node_at w p = Some Dir" and "q = p @ [n]"
proof -
  from assms(1) have "CHR ''/'' \<notin> set n"
    by (simp add: valid_name_def)
  with assms obtain p where "resolve w d = Inr p" "node_at w p = Some Dir" "q = step p n"
    by (auto simp: resolve_join split: sum.splits option.splits node.splits)
  with assms(1) show thesis
    by (intro that [of p]) (simp_all add: step_valid)
qed

lemma node_at_nonroot: "node_at w p = None \<Longrightarrow> p \<noteq> []"
  by (auto simp: node_at_def)

lemma node_at_fs_update:
  "p \<noteq> [] \<Longrightarrow> node_at (w\<lparr>fs := (fs w)(p \<mapsto> n), events := es\<rparr>) q
     = (if q = p then Some n else node_at w q)"
  by (simp add: node_at_def)

subsection \<open>What the file operations change\<close>

lemma open_read_absent:
  assumes "\<not> embedded_null s" and "resolve w s = Inr p" and "node_at w p = None"
  shows "open_read s w = Inl (IOError ENOENT s)"
  using assms by (simp add: open_read_def lookup_def)

lemma open_read_file:
  assumes "\<not> embedded_null s" and "resolve w s = Inr p" and "node_at w p = Some (File c)"
  shows "open_read s w = Inr c"
  using assms by (simp add: open_read_def lookup_def)

lemma write_file_success:
  assumes "fst (write_file s c w) = Inr ()"
  obtains p where "\<not> embedded_null s" and "resolve_entry w s = Inr p"
    and "snd (write_file s c w) = w\<lparr>fs := (fs w)(p \<mapsto> File c), events := events w @ [EvWrite p]\<rparr>"
  using assms by (auto simp: write_file_def split: sum.splits if_splits)

lemma write_file_fresh:
  assumes "\<not> embedded_null s" and "\<not> endswith s ''/''" and "resolve_entry w s = Inr p"
    and "node_at w p \<noteq> Some Dir"
  shows "write_file s c w
     = (Inr (), w\<lparr>fs := (fs w)(p \<mapsto> File c), events := events w @ [EvWrite p]\<rparr>)"
  using assms by (simp add: write_file_def)

lemma mkdir_success:
  assumes "fst (mkdir s w) = Inr ()"
  obtains p where "\<not> embedded_null s" and "resolve_entry w s = Inr p" and "node_at w p = None"
    and "snd (mkdir s w) = w\<lparr>fs := (fs w)(p \<mapsto> Dir), events := events w @ [EvMkdir p]\<rparr>"
  using assms by (auto simp: mkdir_def split: sum.splits if_splits)

lemma mkdir_failure: "fst (mkdir s w) = Inl e \<Longrightarrow> snd (mkdir s w) = w"
  by (auto simp: mkdir_def split: sum.splits if_splits)

lemma mkdir_fresh:
  assumes "\<not> embedded_null s" and "resolve_entry w s = Inr p" and "node_at w p = None"
  shows "mkdir s w = (Inr (), w\<lparr>fs := (fs w)(p \<mapsto> Dir), events := events w @ [EvMkdir p]\<rparr>)"
  using assms by (simp add: mkdir_def)

lemma mkdir_existing:
  assumes "\<not> embedded_null s" and "resolve_entry w s = Inr p" and "node_at w p \<noteq> None"
  shows "mkdir s w = (Inl (OSError EEXIST s), w)"
  using assms by (simp add: mkdir_def)

lemma mkdir_unresolved:
  assumes "\<not> embedded_null s" and "resolve_entry w s = Inl e"
  shows "mkdir s w = (Inl (OSError e s), w)"
  using assms by (simp add: mkdir_def)

subsection \<open>Creating directories only adds directories\<close>

lemma grows_refl: "grows w w"
  by (simp add: grows_def)

lemma grows_trans:
  assumes "grows w w'" and "grows w' w''"
  shows "grows w w''"
proof -
  from assms(1) obtain ps where ps: "events w' = events w @ map EvMkdir ps"
    "\<forall>p \<in> set ps. node_at w p = None"
    by (auto simp: grows_def)
  from assms(2) obtain qs where qs: "events w'' = events w' @ map EvMkdir qs"
    "\<forall>p \<in> set qs. node_at w' p = None"
    by (auto simp: grows_def)
  have keep: "\<forall>p. node_at w p \<noteq> None \<longrightarrow> node_at w' p = node_at w p"
    using assms(1) by (simp add: grows_def)
  have "\<forall>p \<in> set qs. node_at w p = None"
  proof
    fix p assume "p \<in> set qs"
    with qs(2) have "node_at w' p = None" by blast
    with keep show "node_at w p = None" by (cases "node_at w p") auto
  qed
  with ps qs have "events w'' = events w @ map EvMkdir (ps @ qs)
      \<and> (\<forall>p \<in> set (ps @ qs). node_at w p = None)"
    by auto
  then have "\<exists>rs. events w'' = events w @ map EvMkdir rs \<and> (\<forall>p \<in> set rs. node_at w p = None)"
    by blast
  moreover have "\<forall>p. node_at w p \<noteq> None \<longrightarrow> node_at w'' p = node_at w p"
    using assms keep by (simp add: grows_def)
  ultimately show ?thesis
    using assms by (simp add: grows_def)
qed

lemma mkdir_grows: "grows w (snd (mkdir s w))"
proof (cases "fst (mkdir s w)")
  case (Inl e)
  then have "snd (mkdir s w) = w"
    by (rule mkdir_failure)
  then show ?thesis by (simp add: grows_refl)
next
  case (Inr u)
  then have "fst (mkdir s w) = Inr ()"
    by simp
  then obtain p where new: "node_at w p = None"
    and w': "snd (mkdir s w) = w\<lparr>fs := (fs w)(p \<mapsto> Dir), events := events w @ [EvMkdir p]\<rparr>"
    by (rule mkdir_success)
  have "events (snd (mkdir s w)) = events w @ map EvMkdir [p]
      \<and> (\<forall>q \<in> set [p]. node_at w q = None)"
    using new by (simp add: w')
  then have "\<exists>ps. events (snd (mkdir s w)) = events w @ map EvMkdir ps
      \<and> (\<forall>q \<in> set ps. node_at w q = None)"
    by blast
  moreover have "\<forall>q. node_at w q \<noteq> None \<longrightarrow> node_at (snd (mkdir s w)) q = node_at w q"
    using new by (auto simp: w' node_at_def)
  ultimately show ?thesis
    by (simp add: grows_def w')
qed

lemma makedirs_grows: "grows w (snd (makedirs name w))"
proof (induction name w rule: makedirs.induct)
  case (1 name w)
  show ?case
  proof (cases "fst (makedirs_split name) \<noteq> [] \<and> snd (makedirs_split name) \<noteq> []
         \<and> \<not> path_exists w (fst (makedirs_split name))")
    case False
    then have "makedirs name w = mkdir name w"
      by (auto simp: makedirs.simps [of name w])
    then show ?thesis by (simp add: mkdir_grows)
  next
    case True
    obtain r w' where head: "makedirs (fst (makedirs_split name)) w = (r, w')"
      by (cases "makedirs (fst (makedirs_split name)) w")
    with "1.IH" True have g: "grows w w'"
      by simp
    have "snd (makedirs name w) = w' \<or> snd (makedirs name w) = snd (mkdir name w')"
      using True head
      by (simp add: makedirs.simps [of name w] split: sum.splits error.splits)
    then show ?thesis
      using g grows_trans [OF g mkdir_grows [of w' name]] by auto
  qed
qed

lemma get_or_create_dir_grows: "grows w (snd (get_or_create_dir path w))"
proof -
  have "snd (get_or_create_dir path w) = snd (makedirs path w)"
    by (auto simp: get_or_create_dir_def split: prod.splits sum.splits error.splits)
  then show ?thesis by (simp add: makedirs_grows)
qed

lemma verify_mount_point_grows: "grows w (snd (verify_mount_point mount_point w))"
  by (simp add: verify_mount_point_def grows_refl mkdir_grows)

lemma grows_dirs: "grows w w' \<Longrightarrow> node_at w q = Some Dir \<Longrightarrow> node_at w' q = Some Dir"
  by (simp add: grows_def)

lemma grows_resolve: "grows w w' \<Longrightarrow> resolve w s = Inr p \<Longrightarrow> resolve w' s = Inr p"
  by (rule resolve_mono [of w' w]) (auto simp: grows_def)

lemma grows_isdir: "grows w w' \<Longrightarrow> isdir w s \<Longrightarrow> isdir w' s"
proof -
  assume g: "grows w w'" and "isdir w s"
  then obtain p where "\<not> embedded_null s" "resolve w s = Inr p" "node_at w p = Some Dir"
    by (auto elim: isdir_resolves)
  with g show ?thesis
    by (intro isdir_resolved [of s w' p]) (auto dest: grows_resolve grows_dirs)
qed

lemma grows_path_exists: "grows w w' \<Longrightarrow> path_exists w s \<Longrightarrow> path_exists w' s"
proof -
  assume g: "grows w w'" and "path_exists w s"
  then obtain p n where a: "\<not> embedded_null s" "resolve w s = Inr p" "node_at w p = Some n"
    by (auto simp: path_exists_def lookup_def split: sum.splits option.splits)
  from g a(2) have "resolve w' s = Inr p"
    by (rule grows_resolve)
  moreover from g a(3) have "node_at w' p = Some n"
    by (simp add: grows_def)
  ultimately show ?thesis
    using a(1) by (simp add: path_exists_def lookup_def)
qed

lemma grows_clock: "grows w w' \<Longrightarrow> clock w' = clock w"
  by (simp add: grows_def)

subsection \<open>Making one directory below an existing one\<close>

lemma path_exists_rstrip:
  assumes "path_exists w d" and "\<exists>c \<in> set d. c \<noteq> CHR ''/''"
  shows "path_exists w (rev (dropWhile (\<lambda>c. c = CHR ''/'') (rev d)))"
proof -
  let ?r = "rev (dropWhile (\<lambda>c. c = CHR ''/'') (rev d))"
  from assms(1) obtain p n where a: "\<not> embedded_null d" "resolve w d = Inr p" "node_at w p = Some n"
    by (auto simp: path_exists_def lookup_def split: sum.splits option.splits)
  from a(2) assms(2) have "resolve w ?r = Inr p"
    by (rule resolve_rstrip)
  moreover from a(1) have "\<not> embedded_null ?r"
    by (auto dest: embedded_null_rstrip)
  ultimately show ?thesis
    using a(3) by (simp add: path_exists_def lookup_def)
qed

lemma path_exists_head_join:
  assumes "valid_name n" and "path_exists w d"
  shows "path_exists w (fst (posix_split (posix_join d n)))"
  using assms by (simp add: posix_split_join path_exists_rstrip)

text \<open>Where the head of the path exists, \<open>makedirs\<close> is \<open>mkdir\<close>.\<close>

lemma makedirs_join_existing:
  assumes "valid_name n" and "d = [] \<or> path_exists w d"
  shows "makedirs (posix_join d n) w = mkdir (posix_join d n) w"
proof -
  have "fst (posix_split (posix_join d n)) = [] \<or> path_exists w (fst (posix_split (posix_join d n)))"
  proof (cases "d = []")
    case True
    then show ?thesis
      using assms(1) by (simp add: posix_split_join)
  next
    case False
    with assms(2) have "path_exists w d"
      by simp
    with assms(1) show ?thesis
      by (simp add: path_exists_head_join)
  qed
  then show ?thesis
    using assms(1) by (auto simp: makedirs.simps [of "posix_join d n" w] makedirs_split_join)
qed

text \<open>Where it does not, the head is made first; the leaf is made last.\<close>

lemma makedirs_join_success:
  assumes "valid_name n" and "fst (makedirs (posix_join d n) w) = Inr ()"
  obtains w' where "w' = w \<or> w' = snd (makedirs (fst (posix_split (posix_join d n))) w)"
    and "makedirs (posix_join d n) w = mkdir (posix_join d n) w'"
proof (cases "fst (posix_split (posix_join d n)) \<noteq> []
    \<and> \<not> path_exists w (fst (posix_split (posix_join d n)))")
  case False
  then have "makedirs (posix_join d n) w = mkdir (posix_join d n) w"
    using assms(1) by (auto simp: makedirs.simps [of "posix_join d n" w] makedirs_split_join)
  then show ?thesis
    using that [of w] by simp
next
  case True
  let ?h = "fst (posix_split (posix_join d n))"
  obtain r w' where h: "makedirs ?h w = (r, w')"
    by (cases "makedirs ?h w")
  from assms(1) have tail: "snd (posix_split (posix_join d n)) = n" "n \<noteq> []" "n \<noteq> ''.''"
    by (simp_all add: posix_split_join valid_name_def)
  have "makedirs (posix_join d n) w = mkdir (posix_join d n) w'"
    using True h tail assms
    by (auto simp: makedirs.simps [of "posix_join d n" w] makedirs_split_join
        split: sum.splits error.splits if_splits)
  with h show ?thesis
    using that [of w'] by simp
qed

subsection \<open>The directory tree\<close>

lemma tree_below_nothing:
  "tree w \<Longrightarrow> node_at w p = None \<Longrightarrow> node_at w (p @ q) = None"
proof (induction q rule: rev_induct)
  case Nil
  then show ?case by simp
next
  case (snoc x q)
  show ?case
  proof (rule ccontr)
    assume "node_at w (p @ q @ [x]) \<noteq> None"
    with snoc.prems(1) have "node_at w (butlast (p @ q @ [x])) = Some Dir"
      unfolding tree_def by blast
    then have "node_at w (p @ q) = Some Dir"
      by (simp add: butlast_append)
    with snoc show False by simp
  qed
qed

lemma walk_last_step:
  assumes "walk w a cs = Inr p" and "cs \<noteq> []"
  obtains q c where "node_at w q = Some Dir" and "p = step q c"
proof -
  from assms(2) obtain xs c where cs: "cs = xs @ [c]"
    by (metis rev_exhaust)
  from assms(1) obtain q where "walk w a xs = Inr q" "walk w q [c] = Inr p"
    by (auto simp: cs walk_append split: sum.splits)
  then have "node_at w q = Some Dir" "p = step q c"
    by (auto split: option.splits node.splits)
  then show thesis
    by (rule that)
qed

lemma split_slash_hd: "hd (split_slash s) = [] \<Longrightarrow> s = [] \<or> hd s = CHR ''/''"
  by (cases s) (auto split: list.splits if_splits)

text \<open>In a directory tree, a new entry is made in a directory.\<close>

lemma resolve_entry_fresh:
  assumes "tree w" and "resolve_entry w s = Inr p" and "node_at w p = None"
  shows "p \<noteq> []" and "node_at w (butlast p) = Some Dir"
proof -
  let ?cs = "rev (dropWhile (\<lambda>c. c = []) (rev (split_slash s)))"
  from assms(2) have s: "s \<noteq> []" and wk: "walk w (start w s) ?cs = Inr p"
    by (auto simp: resolve_entry_def split: if_splits)
  from assms(3) show pne: "p \<noteq> []"
    by (rule node_at_nonroot)
  have cs: "?cs \<noteq> []"
  proof
    assume e: "?cs = []"
    then have "\<forall>c \<in> set (split_slash s). c = []"
      by (simp add: dropWhile_eq_Nil_conv)
    then have "hd (split_slash s) = []"
      using split_slash_nonempty [of s] by (cases "split_slash s") auto
    with s have "start w s = []"
      by (auto dest: split_slash_hd simp: start_def startswith_slash)
    with wk e pne show False
      by simp
  qed
  from wk cs obtain q c where q: "node_at w q = Some Dir" and p: "p = step q c"
    by (rule walk_last_step)
  have name: "c \<noteq> [] \<and> c \<noteq> ''.'' \<and> c \<noteq> ''..''"
  proof (rule ccontr)
    assume "\<not> (c \<noteq> [] \<and> c \<noteq> ''.'' \<and> c \<noteq> ''..'')"
    then consider "p = q" | "p = butlast q"
      using p by (auto simp: step_def)
    then show False
    proof cases
      case 1
      with q assms(3) show False by simp
    next
      case 2
      with pne have "q \<noteq> []"
        by auto
      with assms(1) q have "node_at w (butlast q) = Some Dir"
        unfolding tree_def by (metis option.distinct(1))
      with 2 assms(3) show False by simp
    qed
  qed
  then have "p = q @ [c]"
    using p by (simp add: step_def)
  with q show "node_at w (butlast p) = Some Dir"
    by simp
qed

lemma tree_mkdir: "tree w \<Longrightarrow> tree (snd (mkdir s w))"
proof (cases "fst (mkdir s w)")
  case (Inl e)
  assume "tree w"
  with Inl show ?thesis
    by (simp add: mkdir_failure)
next
  case (Inr u)
  assume t: "tree w"
  from Inr have "fst (mkdir s w) = Inr ()"
    by simp
  then obtain r where r: "resolve_entry w s = Inr r" and new: "node_at w r = None"
    and w': "snd (mkdir s w) = w\<lparr>fs := (fs w)(r \<mapsto> Dir), events := events w @ [EvMkdir r]\<rparr>"
    by (rule mkdir_success)
  note f = resolve_entry_fresh [OF t r new]
  show ?thesis
    unfolding tree_def
  proof (intro allI impI)
    fix p
    assume p: "p \<noteq> []" "node_at (snd (mkdir s w)) p \<noteq> None"
    show "node_at (snd (mkdir s w)) (butlast p) = Some Dir"
    proof (cases "p = r")
      case True
      have "butlast r \<noteq> r"
        using f(1) by (metis append_butlast_last_id append_self_conv list.distinct(1))
      then show ?thesis
        using f(2) True by (auto simp: w' node_at_def split: if_splits)
    next
      case False
      with p have "node_at w p \<noteq> None"
        by (simp add: w' node_at_def)
      with t p(1) have "node_at w (butlast p) = Some Dir"
        unfolding tree_def by blast
      then show ?thesis
        by (auto simp: w' node_at_def)
    qed
  qed
qed

lemma tree_makedirs: "tree w \<Longrightarrow> tree (snd (makedirs name w))"
proof (induction name w rule: makedirs.induct)
  case (1 name w)
  show ?case
  proof (cases "fst (makedirs_split name) \<noteq> [] \<and> snd (makedirs_split name) \<noteq> []
         \<and> \<not> path_exists w (fst (makedirs_split name))")
    case False
    then have "makedirs name w = mkdir name w"
      by (auto simp: makedirs.simps [of name w])
    with "1.prems" show ?thesis by (simp add: tree_mkdir)
  next
    case True
    obtain r w' where head: "makedirs (fst (makedirs_split name)) w = (r, w')"
      by (cases "makedirs (fst (makedirs_split name)) w")
    with "1.IH" "1.prems" True have t: "tree w'"
      by simp
    have "snd (makedirs name w) = w' \<or> snd (makedirs name w) = snd (mkdir name w')"
      using True head
      by (simp add: makedirs.simps [of name w] split: sum.splits error.splits)
    then show ?thesis
      using t tree_mkdir [OF t, of name] by auto
  qed
qed

lemma tree_demo_world: "tree demo_world"
  by (auto simp: tree_def demo_world_def node_at_def split: if_splits)

subsection \<open>Python strings and documents\<close>

lemma isspace_newline: "isspace (CHR 0x0A)"
  by (simp add: isspace_def)

lemma strip_newline: "strip (s @ [CHR 0x0A]) = strip s"
proof (cases "\<forall>c \<in> set s. isspace c")
  case True
  then have a: "dropWhile isspace s = []"
    by (simp add: dropWhile_eq_Nil_conv)
  have b: "dropWhile isspace (s @ [CHR 0x0A]) = dropWhile isspace [CHR 0x0A]"
    by (rule dropWhile_append2) (use True in blast)
  show ?thesis
    unfolding strip_def a b by (simp add: isspace_newline)
next
  case False
  then have "dropWhile isspace (s @ [CHR 0x0A]) = dropWhile isspace s @ [CHR 0x0A]"
    by (auto simp: dropWhile_append)
  then show ?thesis
    unfolding strip_def by (simp add: isspace_newline)
qed

text \<open>
  A carriage return at the end of the text and the line feed written after it are read as
  one line feed.
\<close>

lemma universal_newlines_newline:
  "universal_newlines (s @ [CHR 0x0A])
     = (if s \<noteq> [] \<and> last s = CHR 0x0D then universal_newlines s
        else universal_newlines s @ [CHR 0x0A])"
  by (induction s rule: universal_newlines.induct) auto

lemma read_back_line: "strip (universal_newlines (s @ [CHR 0x0A])) = strip (universal_newlines s)"
  by (simp add: universal_newlines_newline strip_newline)

lemma universal_newlines_plain: "CHR 0x0D \<notin> set s \<Longrightarrow> universal_newlines s = s"
  by (induction s rule: universal_newlines.induct) auto

lemma strip_plain:
  assumes "s = [] \<or> (\<not> isspace (hd s) \<and> \<not> isspace (last s))"
  shows "strip s = s"
proof (cases s)
  case Nil
  then show ?thesis by (simp add: strip_def)
next
  case (Cons c cs)
  with assms have h: "\<not> isspace (hd s)" and l: "\<not> isspace (last s)"
    by simp_all
  from Cons h have "dropWhile isspace s = s"
    by simp
  moreover have "dropWhile isspace (rev s) = rev s"
  proof -
    have "hd (rev s) = last s"
      by (rule hd_rev)
    with l have "\<not> isspace (hd (rev s))"
      by simp
    then show ?thesis
      by (cases "rev s") simp_all
  qed
  ultimately show ?thesis
    by (simp add: strip_def)
qed

lemma json_load_document: "json_load [Doc j, Chars [CHR 0x0A]] = Inr j"
  by (simp add: json_load_def json_space_def)

subsection \<open>Entries made and read in a directory\<close>

lemma resolve_fs_update:
  assumes "r \<noteq> []" and "node_at w r \<noteq> Some Dir \<or> n = Dir" and "resolve w s = Inr q"
  shows "resolve (w\<lparr>fs := (fs w)(r \<mapsto> n), events := es\<rparr>) s = Inr q"
proof (rule resolve_mono [OF _ _ assms(3)])
  show "cwd (w\<lparr>fs := (fs w)(r \<mapsto> n), events := es\<rparr>) = cwd w"
    by simp
  show "node_at (w\<lparr>fs := (fs w)(r \<mapsto> n), events := es\<rparr>) q = Some Dir"
    if "node_at w q = Some Dir" for q
    using that assms(1,2) by (auto simp: node_at_def)
qed

lemma mkdir_join_fresh:
  assumes "valid_name n" and "\<not> embedded_null n" and "d \<noteq> []" and "\<not> embedded_null d"
    and "resolve w d = Inr p" and "node_at w p = Some Dir" and "node_at w (p @ [n]) = None"
  shows "mkdir (posix_join d n) w
     = (Inr (), w\<lparr>fs := (fs w)(p @ [n] \<mapsto> Dir), events := events w @ [EvMkdir (p @ [n])]\<rparr>)"
proof (rule mkdir_fresh)
  show "\<not> embedded_null (posix_join d n)"
    using assms(1,2,4) by (simp add: embedded_null_valid_join)
  show "resolve_entry w (posix_join d n) = Inr (p @ [n])"
    using assms(1,3,5,6) by (simp add: resolve_entry_join resolve_join_dir)
  show "node_at w (p @ [n]) = None"
    by (rule assms(7))
qed

lemma mkdir_join_success:
  assumes "valid_name n" and "d \<noteq> []" and "fst (mkdir (posix_join d n) w) = Inr ()"
  obtains p where "\<not> embedded_null d" and "\<not> embedded_null n"
    and "resolve w d = Inr p" and "node_at w p = Some Dir" and "node_at w (p @ [n]) = None"
    and "snd (mkdir (posix_join d n) w)
         = w\<lparr>fs := (fs w)(p @ [n] \<mapsto> Dir), events := events w @ [EvMkdir (p @ [n])]\<rparr>"
proof -
  from assms(3) obtain q where nul: "\<not> embedded_null (posix_join d n)"
    and q: "resolve_entry w (posix_join d n) = Inr q" and new: "node_at w q = None"
    and w': "snd (mkdir (posix_join d n) w)
         = w\<lparr>fs := (fs w)(q \<mapsto> Dir), events := events w @ [EvMkdir q]\<rparr>"
    by (rule mkdir_success)
  from q assms(1) have "resolve w (posix_join d n) = Inr q"
    by (simp add: resolve_entry_join)
  with assms(1,2) obtain p where p: "resolve w d = Inr p" "node_at w p = Some Dir" "q = p @ [n]"
    by (rule resolve_join_success)
  from nul assms(1) have "\<not> embedded_null d" "\<not> embedded_null n"
    by (simp_all add: embedded_null_valid_join)
  then show thesis
    using p(1,2) new w' unfolding p(3) by (rule that)
qed

lemma write_join_fresh:
  assumes "valid_name n" and "\<not> embedded_null n" and "d \<noteq> []" and "\<not> embedded_null d"
    and "resolve w d = Inr p" and "node_at w p = Some Dir" and "node_at w (p @ [n]) \<noteq> Some Dir"
  shows "write_file (posix_join d n) c w
     = (Inr (), w\<lparr>fs := (fs w)(p @ [n] \<mapsto> File c), events := events w @ [EvWrite (p @ [n])]\<rparr>)"
proof (rule write_file_fresh)
  show "\<not> embedded_null (posix_join d n)"
    using assms(1,2,4) by (simp add: embedded_null_valid_join)
  show "\<not> endswith (posix_join d n) ''/''"
    using assms(1) by (rule posix_join_last)
  show "resolve_entry w (posix_join d n) = Inr (p @ [n])"
    using assms(1,3,5,6) by (simp add: resolve_entry_join resolve_join_dir)
  show "node_at w (p @ [n]) \<noteq> Some Dir"
    by (rule assms(7))
qed

lemma write_join_success:
  assumes "valid_name n" and "d \<noteq> []" and "fst (write_file (posix_join d n) c w) = Inr ()"
  obtains p where "\<not> embedded_null d"
    and "resolve w d = Inr p" and "node_at w p = Some Dir" and "node_at w (p @ [n]) \<noteq> Some Dir"
    and "snd (write_file (posix_join d n) c w)
         = w\<lparr>fs := (fs w)(p @ [n] \<mapsto> File c), events := events w @ [EvWrite (p @ [n])]\<rparr>"
proof -
  from assms(3) obtain q where nul: "\<not> embedded_null (posix_join d n)"
    and q: "resolve_entry w (posix_join d n) = Inr q"
    and w': "snd (write_file (posix_join d n) c w)
         = w\<lparr>fs := (fs w)(q \<mapsto> File c), events := events w @ [EvWrite q]\<rparr>"
    by (rule write_file_success)
  from assms(3) q have nd: "node_at w q \<noteq> Some Dir"
    by (auto simp: write_file_def split: if_splits)
  from q assms(1) have "resolve w (posix_join d n) = Inr q"
    by (simp add: resolve_entry_join)
  with assms(1,2) obtain p where p: "resolve w d = Inr p" "node_at w p = Some Dir" "q = p @ [n]"
    by (rule resolve_join_success)
  from nul assms(1) have "\<not> embedded_null d"
    by (simp add: embedded_null_valid_join)
  then show thesis
    using p(1,2) nd w' unfolding p(3) by (rule that)
qed

lemma open_read_join:
  assumes "valid_name n" and "\<not> embedded_null n" and "d \<noteq> []" and "\<not> embedded_null d"
    and "resolve w d = Inr p" and "node_at w p = Some Dir"
  shows "open_read (posix_join d n) w
     = (case node_at w (p @ [n]) of None \<Rightarrow> Inl (IOError ENOENT (posix_join d n))
        | Some Dir \<Rightarrow> Inl (IOError EISDIR (posix_join d n)) | Some (File c) \<Rightarrow> Inr c)"
proof -
  have "\<not> embedded_null (posix_join d n)"
    using assms(1,2,4) by (simp add: embedded_null_valid_join)
  moreover have "resolve w (posix_join d n) = Inr (p @ [n])"
    using assms(1,3,5,6) by (rule resolve_join_dir)
  ultimately show ?thesis
    by (simp add: open_read_def lookup_def split: option.splits node.splits)
qed

lemma path_exists_join:
  assumes "valid_name n" and "\<not> embedded_null n" and "d \<noteq> []" and "\<not> embedded_null d"
    and "resolve w d = Inr p" and "node_at w p = Some Dir"
  shows "path_exists w (posix_join d n) = (node_at w (p @ [n]) \<noteq> None)"
    and "isdir w (posix_join d n) = (node_at w (p @ [n]) = Some Dir)"
proof -
  have "\<not> embedded_null (posix_join d n)"
    using assms(1,2,4) by (simp add: embedded_null_valid_join)
  moreover have "resolve w (posix_join d n) = Inr (p @ [n])"
    using assms(1,3,5,6) by (rule resolve_join_dir)
  ultimately show "path_exists w (posix_join d n) = (node_at w (p @ [n]) \<noteq> None)"
    and "isdir w (posix_join d n) = (node_at w (p @ [n]) = Some Dir)"
    by (auto simp: path_exists_def isdir_def lookup_def split: option.splits)
qed

section \<open>Properties of the client registry\<close>

subsection \<open>Validating a mount point\<close>

lemma verify_mount_point_existing:
  "isdir w mount_point \<Longrightarrow> verify_mount_point mount_point w = (Inr (), w)"
  by (simp add: verify_mount_point_def)

lemma verify_mount_point_no_parent:
  "\<not> isdir w mount_point \<Longrightarrow> \<not> isdir w (dirname mount_point) \<Longrightarrow>
   verify_mount_point mount_point w
     = (Inl (Exception (mount_point_message (dirname mount_point) mount_point)), w)"
  by (simp add: verify_mount_point_def)

text \<open>
  Where \<open>os.path.dirname\<close> names a directory for the mount point, the mount point is an
  entry of that directory, and \<open>os.mkdir\<close> is called unless a directory is there already.
\<close>

lemma mount_point_in_dirname:
  assumes "isdir w (dirname mount_point)"
  obtains p where "resolve w (dirname mount_point) = Inr p" and "node_at w p = Some Dir"
    and "resolve w mount_point = Inr (step p (snd (posix_split mount_point)))"
proof -
  from assms obtain p where ne: "dirname mount_point \<noteq> []"
    and p: "resolve w (dirname mount_point) = Inr p" "node_at w p = Some Dir"
    by (rule isdir_resolves)
  from ne p have "resolve w mount_point = Inr (step p (snd (posix_split mount_point)))"
    by (simp add: resolve_split)
  with p show thesis
    by (rule that)
qed

lemma mount_point_entry:
  assumes "isdir w (dirname mount_point)" and "\<not> isdir w mount_point"
    and "\<not> embedded_null mount_point"
  obtains q where "resolve w mount_point = Inr q" and "resolve_entry w mount_point = Inr q"
    and "node_at w q \<noteq> Some Dir"
proof -
  from assms(1) obtain p where p: "node_at w p = Some Dir"
    and q: "resolve w mount_point = Inr (step p (snd (posix_split mount_point)))"
    by (rule mount_point_in_dirname)
  from assms(2,3) q have nd: "node_at w (step p (snd (posix_split mount_point))) \<noteq> Some Dir"
    by (auto simp: isdir_def lookup_def)
  with p have "snd (posix_split mount_point) \<noteq> []"
    by (auto simp: step_def)
  then have "mount_point \<noteq> []" "last mount_point \<noteq> CHR ''/''"
    by (rule posix_split_tail_nonempty)+
  then have "resolve_entry w mount_point = resolve w mount_point"
    by (rule resolve_entry_plain)
  with q nd show thesis
    by (intro that [of "step p (snd (posix_split mount_point))"]) simp_all
qed

lemma verify_mount_point_creates:
  assumes "\<not> path_exists w mount_point" and "\<not> embedded_null mount_point"
    and "isdir w (dirname mount_point)"
  obtains q where "resolve w mount_point = Inr q" and "node_at w q = None"
    and "verify_mount_point mount_point w
         = (Inr (), w\<lparr>fs := (fs w)(q \<mapsto> Dir), events := events w @ [EvMkdir q]\<rparr>)"
proof -
  from assms(1,2) have nd: "\<not> isdir w mount_point"
    by (auto simp: isdir_def path_exists_def)
  obtain q where q: "resolve w mount_point = Inr q" "resolve_entry w mount_point = Inr q"
    "node_at w q \<noteq> Some Dir"
    by (rule mount_point_entry [OF assms(3) nd assms(2)])
  from assms(1,2) q(1) have new: "node_at w q = None"
    by (auto simp: path_exists_def lookup_def split: option.splits)
  with assms(2) q(2) have "mkdir mount_point w
      = (Inr (), w\<lparr>fs := (fs w)(q \<mapsto> Dir), events := events w @ [EvMkdir q]\<rparr>)"
    by (intro mkdir_fresh)
  with nd assms(3) have "verify_mount_point mount_point w
      = (Inr (), w\<lparr>fs := (fs w)(q \<mapsto> Dir), events := events w @ [EvMkdir q]\<rparr>)"
    by (simp add: verify_mount_point_def)
  with q(1) new show thesis
    by (rule that)
qed

lemma verify_mount_point_on_file:
  assumes "isfile w mount_point" and "isdir w (dirname mount_point)"
  shows "verify_mount_point mount_point w = (Inl (OSError EEXIST mount_point), w)"
proof -
  from assms(1) have nul: "\<not> embedded_null mount_point" and nd: "\<not> isdir w mount_point"
    by (auto simp: isfile_def isdir_def split: sum.splits node.splits)
  obtain q where q: "resolve w mount_point = Inr q" "resolve_entry w mount_point = Inr q"
    "node_at w q \<noteq> Some Dir"
    by (rule mount_point_entry [OF assms(2) nd nul])
  from assms(1) q(1) have "node_at w q \<noteq> None"
    by (auto simp: isfile_def lookup_def split: option.splits)
  with nul q(2) have "mkdir mount_point w = (Inl (OSError EEXIST mount_point), w)"
    by (intro mkdir_existing)
  with nd assms(2) show ?thesis
    by (simp add: verify_mount_point_def)
qed

lemma verify_mount_point_null:
  assumes "embedded_null mount_point" and "isdir w (dirname mount_point)"
  shows "verify_mount_point mount_point w = (Inl ValueError, w)"
  using assms by (simp add: verify_mount_point_def isdir_def mkdir_def)

lemma tree_verify_mount_point: "tree w \<Longrightarrow> tree (snd (verify_mount_point mount_point w))"
  by (simp add: verify_mount_point_def tree_mkdir)

lemma mount_point_message_differs:
  "Exception (mount_point_message parent_dir mount_point) \<noteq> already_exists name"
proof
  assume "Exception (mount_point_message parent_dir mount_point) = already_exists name"
  then have "mount_point_message parent_dir mount_point
      = ''Error: client '' @ name @ '' already exists.''"
    by (simp add: already_exists_def)
  then have "take 2 (rev (mount_point_message parent_dir mount_point))
      = take 2 (rev (''Error: client '' @ name @ '' already exists.''))"
    by simp
  then show False
    by (simp add: mount_point_message_def)
qed

subsection \<open>The stages of create_client\<close>

lemma then_do_success:
  assumes "fst (then_do m k) = Inr y"
  obtains x where "fst m = Inr x" and "then_do m k = k x (snd m)"
  using assms by (cases m; cases "fst m") (auto simp: then_do_def)

lemma then_do_failure: "fst m = Inl e \<Longrightarrow> then_do m k = (Inl e, snd m)"
  by (cases m) (auto simp: then_do_def)

lemma valid_name_CONFIG_JSON: "valid_name CONFIG_JSON"
  by (simp add: valid_name_def CONFIG_JSON_def)

lemma valid_name_SNAPSHOT: "valid_name SNAPSHOT"
  by (simp add: valid_name_def SNAPSHOT_def)

lemma valid_name_bind_mounts: "valid_name ''bind-mounts''" "valid_name ''buck-out''"
  by (simp_all add: valid_name_def)

lemma client_dir_nonempty: "posix_join (get_clients_dir config_dir) name \<noteq> []"
proof -
  have "get_clients_dir config_dir \<noteq> []"
    by (simp add: get_clients_dir_def CLIENTS_DIR_def posix_join_nonempty)
  then show ?thesis
    by (rule posix_join_nonempty_left)
qed

lemma finish_client_snapshot:
  "sid \<noteq> [] \<Longrightarrow> finish_client config_dir name (Some sid) w5 =
     write_file (posix_join (posix_join (get_clients_dir config_dir) name) SNAPSHOT)
       [Chars (sid @ [CHR 0x0A])] w5"
  by (simp add: finish_client_def)

lemma create_client_staged:
  "create_client config_dir name mount_point snapshot_id repo_type repo_source with_buck w =
     then_do (verify_mount_point mount_point w) (\<lambda>u1 w1.
       if isdir w1 (posix_join (get_clients_dir config_dir) name)
       then (Inl (already_exists name), w1)
       else
     then_do (makedirs (posix_join (get_clients_dir config_dir) name) w1) (\<lambda>u2 w2.
     then_do (makedirs (posix_join (posix_join (get_clients_dir config_dir) name)
                ''bind-mounts'') w2) (\<lambda>u3 w3.
     then_do (if with_buck
              then makedirs (posix_join (posix_join (posix_join (get_clients_dir config_dir) name)
                     ''bind-mounts'') ''buck-out'') w3
              else (Inr (), w3)) (\<lambda>u4 w4.
     then_do (write_file (posix_join (posix_join (get_clients_dir config_dir) name) CONFIG_JSON)
                [Doc (config_document mount_point repo_type repo_source with_buck),
                 Chars [CHR 0x0A]] w4) (\<lambda>u5 w5.
       case snapshot_id of
         None \<Rightarrow> (Inr (), w5)
       | Some sid \<Rightarrow>
           if sid = [] then (Inr (), w5)
           else write_file (posix_join (posix_join (get_clients_dir config_dir) name) SNAPSHOT)
                  [Chars (sid @ [CHR 0x0A])] w5)))))"
  unfolding create_client_def then_do_def config_document_def Let_def
  by (rule refl)

lemma create_client_stages:
  assumes ok: "fst (create_client config_dir name mount_point snapshot_id repo_type repo_source
             with_buck w) = Inr ()"
  shows "\<exists>w1 w2 w3 w4.
      verify_mount_point mount_point w = (Inr (), w1)
      \<and> \<not> isdir w1 (posix_join (get_clients_dir config_dir) name)
      \<and> makedirs (posix_join (get_clients_dir config_dir) name) w1 = (Inr (), w2)
      \<and> makedirs (posix_join (posix_join (get_clients_dir config_dir) name) ''bind-mounts'') w2
          = (Inr (), w3)
      \<and> (if with_buck
          then makedirs (posix_join (posix_join (posix_join (get_clients_dir config_dir) name)
                 ''bind-mounts'') ''buck-out'') w3
          else (Inr (), w3)) = (Inr (), w4)
      \<and> fst (write_file (posix_join (posix_join (get_clients_dir config_dir) name) CONFIG_JSON)
            [Doc (config_document mount_point repo_type repo_source with_buck),
             Chars [CHR 0x0A]] w4) = Inr ()
      \<and> create_client config_dir name mount_point snapshot_id repo_type repo_source with_buck w
          = finish_client config_dir name snapshot_id
              (snd (write_file
                 (posix_join (posix_join (get_clients_dir config_dir) name) CONFIG_JSON)
                 [Doc (config_document mount_point repo_type repo_source with_buck),
                  Chars [CHR 0x0A]] w4))"
proof -
  let ?cd = "posix_join (get_clients_dir config_dir) name"
  let ?bm = "posix_join ?cd ''bind-mounts''"
  let ?doc = "[Doc (config_document mount_point repo_type repo_source with_buck),
               Chars [CHR 0x0A]]"
  obtain r1 w1 where s1: "verify_mount_point mount_point w = (r1, w1)"
    by (cases "verify_mount_point mount_point w")
  obtain r2 w2 where s2: "makedirs ?cd w1 = (r2, w2)"
    by (cases "makedirs ?cd w1")
  obtain r3 w3 where s3: "makedirs ?bm w2 = (r3, w3)"
    by (cases "makedirs ?bm w2")
  obtain r4 w4 where s4:
    "(if with_buck then makedirs (posix_join ?bm ''buck-out'') w3 else (Inr (), w3)) = (r4, w4)"
    by (cases "if with_buck then makedirs (posix_join ?bm ''buck-out'') w3 else (Inr (), w3)")
  obtain r5 w5 where s5: "write_file (posix_join ?cd CONFIG_JSON) ?doc w4 = (r5, w5)"
    by (cases "write_file (posix_join ?cd CONFIG_JSON) ?doc w4")
  have r1: "r1 = Inr ()"
    using ok s1 by (cases r1) (simp_all add: create_client_staged then_do_def)
  have nd: "\<not> isdir w1 ?cd"
    using ok s1 r1 by (auto simp: create_client_staged then_do_def)
  have r2: "r2 = Inr ()"
    using ok s1 r1 nd s2 by (cases r2) (simp_all add: create_client_staged then_do_def)
  have r3: "r3 = Inr ()"
    using ok s1 r1 nd s2 r2 s3 by (cases r3) (simp_all add: create_client_staged then_do_def)
  have r4: "r4 = Inr ()"
    using ok s1 r1 nd s2 r2 s3 r3 s4
    by (cases r4) (simp_all add: create_client_staged then_do_def)
  have r5: "r5 = Inr ()"
    using ok s1 r1 nd s2 r2 s3 r3 s4 r4 s5
    by (cases r5) (simp_all add: create_client_staged then_do_def)
  have "create_client config_dir name mount_point snapshot_id repo_type repo_source with_buck w
          = finish_client config_dir name snapshot_id w5"
    using s1 r1 nd s2 r2 s3 r3 s4 r4 s5 r5
    by (simp add: create_client_staged then_do_def finish_client_def)
  with s1 r1 nd s2 r2 s3 r3 s4 r4 s5 r5
  have "verify_mount_point mount_point w = (Inr (), w1)
      \<and> \<not> isdir w1 ?cd
      \<and> makedirs ?cd w1 = (Inr (), w2)
      \<and> makedirs ?bm w2 = (Inr (), w3)
      \<and> (if with_buck then makedirs (posix_join ?bm ''buck-out'') w3 else (Inr (), w3))
          = (Inr (), w4)
      \<and> fst (write_file (posix_join ?cd CONFIG_JSON) ?doc w4) = Inr ()
      \<and> create_client config_dir name mount_point snapshot_id repo_type repo_source with_buck w
          = finish_client config_dir name snapshot_id
              (snd (write_file (posix_join ?cd CONFIG_JSON) ?doc w4))"
    by simp
  then show ?thesis
    by blast
qed

lemma create_client_success:
  assumes ok: "fst (create_client config_dir name mount_point snapshot_id repo_type repo_source
             with_buck w) = Inr ()"
  obtains w4 where
    "fst (write_file (posix_join (posix_join (get_clients_dir config_dir) name) CONFIG_JSON)
       [Doc (config_document mount_point repo_type repo_source with_buck), Chars [CHR 0x0A]] w4)
       = Inr ()"
    and "create_client config_dir name mount_point snapshot_id repo_type repo_source with_buck w
         = finish_client config_dir name snapshot_id
             (snd (write_file
                (posix_join (posix_join (get_clients_dir config_dir) name) CONFIG_JSON)
                [Doc (config_document mount_point repo_type repo_source with_buck),
                 Chars [CHR 0x0A]] w4))"
proof -
  from create_client_stages [OF ok] obtain w1 w2 w3 w4 where
    "fst (write_file (posix_join (posix_join (get_clients_dir config_dir) name) CONFIG_JSON)
       [Doc (config_document mount_point repo_type repo_source with_buck), Chars [CHR 0x0A]] w4)
       = Inr ()"
    and "create_client config_dir name mount_point snapshot_id repo_type repo_source with_buck w
         = finish_client config_dir name snapshot_id
             (snd (write_file
                (posix_join (posix_join (get_clients_dir config_dir) name) CONFIG_JSON)
                [Doc (config_document mount_point repo_type repo_source with_buck),
                 Chars [CHR 0x0A]] w4))"
    by blast
  then show thesis
    by (rule that)
qed

lemma isdir_path_exists: "isdir w s \<Longrightarrow> path_exists w s"
  by (simp add: isdir_def path_exists_def)

lemma path_exists_resolved:
  "\<not> embedded_null s \<Longrightarrow> resolve w s = Inr p \<Longrightarrow> node_at w p = Some n \<Longrightarrow> path_exists w s"
  by (simp add: path_exists_def lookup_def)

text \<open>
  In a directory tree, with the mount point a directory and the directory of the clients
  there, \<open>create_client\<close> succeeds for every valid name that is not yet taken.
\<close>

lemma create_client_succeeds:
  assumes t: "tree w"
    and n: "valid_name name" "\<not> embedded_null name"
    and m: "isdir w mount_point"
    and cl: "isdir w (get_clients_dir config_dir)"
    and new: "\<not> path_exists w (posix_join (get_clients_dir config_dir) name)"
  shows "fst (create_client config_dir name mount_point snapshot_id repo_type repo_source
                with_buck w) = Inr ()"
proof -
  let ?cl = "get_clients_dir config_dir"
  let ?cd = "posix_join ?cl name"
  let ?bm = "posix_join ?cd ''bind-mounts''"
  let ?bo = "posix_join ?bm ''buck-out''"
  let ?doc = "[Doc (config_document mount_point repo_type repo_source with_buck),
               Chars [CHR 0x0A]]"
  from cl obtain C where clne: "?cl \<noteq> []" and clz: "\<not> embedded_null ?cl"
    and C: "resolve w ?cl = Inr C" "node_at w C = Some Dir"
    by (rule isdir_resolves)
  define P where "P = C @ [name]"
  have Pne: "P \<noteq> []"
    by (simp add: P_def)
  have cdne: "?cd \<noteq> []"
    by (rule client_dir_nonempty)
  have cdz: "\<not> embedded_null ?cd"
    using n clz by (simp add: embedded_null_valid_join)
  have bmne: "?bm \<noteq> []"
    by (simp add: posix_join_nonempty)
  have bmz: "\<not> embedded_null ?bm"
    using cdz by (simp add: embedded_null_valid_join valid_name_bind_mounts)
  have fresh: "node_at w P = None"
    using new path_exists_join(1) [OF n clne clz C] by (simp add: P_def)
  have below: "node_at w (P @ q) = None" for q
    using t fresh by (rule tree_below_nothing)
  have s1: "verify_mount_point mount_point w = (Inr (), w)"
    using m by (rule verify_mount_point_existing)
  have nd: "\<not> isdir w ?cd"
    using fresh path_exists_join(2) [OF n clne clz C] by (simp add: P_def)
  \<comment> \<open>the client directory\<close>
  define w2 where "w2 = w\<lparr>fs := (fs w)(P \<mapsto> Dir), events := events w @ [EvMkdir P]\<rparr>"
  have "makedirs ?cd w = mkdir ?cd w"
    using n(1) cl by (intro makedirs_join_existing) (simp_all add: isdir_path_exists)
  also have "\<dots> = (Inr (), w2)"
    unfolding w2_def P_def using n clne clz C fresh [unfolded P_def] by (rule mkdir_join_fresh)
  finally have s2: "makedirs ?cd w = (Inr (), w2)" .
  have n2: "node_at w2 q = (if q = P then Some Dir else node_at w q)" for q
    unfolding w2_def using Pne by (rule node_at_fs_update)
  have "resolve w ?cd = Inr P"
    unfolding P_def using n(1) clne C by (rule resolve_join_dir)
  then have r2: "resolve w2 ?cd = Inr P"
    unfolding w2_def using Pne by (intro resolve_fs_update) simp_all
  have d2: "node_at w2 P = Some Dir"
    by (simp add: n2)
  \<comment> \<open>the directory of the bind mounts\<close>
  define w3 where "w3 = w2\<lparr>fs := (fs w2)(P @ [''bind-mounts''] \<mapsto> Dir),
                            events := events w2 @ [EvMkdir (P @ [''bind-mounts''])]\<rparr>"
  have "makedirs ?bm w2 = mkdir ?bm w2"
    using valid_name_bind_mounts(1) path_exists_resolved [OF cdz r2 d2]
    by (intro makedirs_join_existing) simp_all
  also have "\<dots> = (Inr (), w3)"
    unfolding w3_def using valid_name_bind_mounts(1) _ cdne cdz r2 d2
    by (rule mkdir_join_fresh) (use below [of "[''bind-mounts'']"] in \<open>simp_all add: n2\<close>)
  finally have s3: "makedirs ?bm w2 = (Inr (), w3)" .
  have n3: "node_at w3 q = (if q = P @ [''bind-mounts''] then Some Dir else node_at w2 q)" for q
    unfolding w3_def by (rule node_at_fs_update) simp
  have r3: "resolve w3 ?cd = Inr P"
    unfolding w3_def using r2 by (intro resolve_fs_update) simp_all
  have d3: "node_at w3 P = Some Dir"
    by (simp add: n3 n2)
  have rb3: "resolve w3 ?bm = Inr (P @ [''bind-mounts''])"
    using valid_name_bind_mounts(1) cdne r3 d3 by (rule resolve_join_dir)
  have db3: "node_at w3 (P @ [''bind-mounts'']) = Some Dir"
    by (simp add: n3)
  \<comment> \<open>the directory of the build artifacts\<close>
  define w4 where "w4 = (if with_buck
      then w3\<lparr>fs := (fs w3)(P @ [''bind-mounts'', ''buck-out''] \<mapsto> Dir),
               events := events w3 @ [EvMkdir (P @ [''bind-mounts'', ''buck-out''])]\<rparr>
      else w3)"
  have "makedirs ?bo w3 = (Inr (), w4)" if with_buck
  proof -
    have "makedirs ?bo w3 = mkdir ?bo w3"
      using valid_name_bind_mounts(2) path_exists_resolved [OF bmz rb3 db3]
      by (intro makedirs_join_existing) simp_all
    also have "\<dots> = (Inr (), w3\<lparr>fs := (fs w3)((P @ [''bind-mounts'']) @ [''buck-out''] \<mapsto> Dir),
                  events := events w3 @ [EvMkdir ((P @ [''bind-mounts'']) @ [''buck-out''])]\<rparr>)"
      using valid_name_bind_mounts(2) _ bmne bmz rb3 db3
      by (rule mkdir_join_fresh)
         (use below [of "[''bind-mounts'', ''buck-out'']"] in \<open>simp_all add: n3 n2\<close>)
    also have "\<dots> = (Inr (), w4)"
      using that by (simp add: w4_def)
    finally show ?thesis .
  qed
  then have s4: "(if with_buck then makedirs ?bo w3 else (Inr (), w3)) = (Inr (), w4)"
    by (simp add: w4_def)
  have n4: "node_at w4 q = (if with_buck \<and> q = P @ [''bind-mounts'', ''buck-out'']
                            then Some Dir else node_at w3 q)" for q
    by (simp add: w4_def node_at_def)
  have r4: "resolve w4 ?cd = Inr P"
  proof (cases with_buck)
    case True
    have "resolve (w3\<lparr>fs := (fs w3)(P @ [''bind-mounts'', ''buck-out''] \<mapsto> Dir),
             events := events w3 @ [EvMkdir (P @ [''bind-mounts'', ''buck-out''])]\<rparr>) ?cd = Inr P"
      using r3 by (intro resolve_fs_update) simp_all
    with True show ?thesis
      unfolding w4_def by (simp only: if_True)
  next
    case False
    then show ?thesis
      by (simp add: w4_def r3)
  qed
  have d4: "node_at w4 P = Some Dir"
    by (simp add: n4 d3)
  \<comment> \<open>the two files\<close>
  define w5 where "w5 = w4\<lparr>fs := (fs w4)(P @ [CONFIG_JSON] \<mapsto> File ?doc),
                            events := events w4 @ [EvWrite (P @ [CONFIG_JSON])]\<rparr>"
  have none4: "node_at w4 (P @ [CONFIG_JSON]) = None"
    using below [of "[CONFIG_JSON]"] by (simp add: n4 n3 n2 CONFIG_JSON_def)
  have s5: "write_file (posix_join ?cd CONFIG_JSON) ?doc w4 = (Inr (), w5)"
    unfolding w5_def using valid_name_CONFIG_JSON _ cdne cdz r4 d4
    by (rule write_join_fresh) (simp_all add: none4)
  have n5: "node_at w5 q = (if q = P @ [CONFIG_JSON] then Some (File ?doc) else node_at w4 q)"
    for q
    unfolding w5_def by (rule node_at_fs_update) simp
  have r5: "resolve w5 ?cd = Inr P"
    unfolding w5_def using r4 by (intro resolve_fs_update) (simp_all add: none4)
  have d5: "node_at w5 P = Some Dir"
    by (simp add: n5 d4)
  have s6: "fst (write_file (posix_join ?cd SNAPSHOT) c w5) = Inr ()" for c
  proof -
    have "node_at w5 (P @ [SNAPSHOT]) = None"
      using below [of "[SNAPSHOT]"]
      by (simp add: n5 n4 n3 n2 CONFIG_JSON_def SNAPSHOT_def)
    then have "node_at w5 (P @ [SNAPSHOT]) \<noteq> Some Dir"
      by simp
    with valid_name_SNAPSHOT embedded_null_names(2) cdne cdz r5 d5 show ?thesis
      by (simp add: write_join_fresh)
  qed
  have "create_client config_dir name mount_point snapshot_id repo_type repo_source with_buck w
      = finish_client config_dir name snapshot_id w5"
    using s1 nd s2 s3 s4 s5
    by (simp add: create_client_staged then_do_def finish_client_def)
  then show ?thesis
    using s6 by (simp add: finish_client_def split: option.splits)
qed

subsection \<open>Creating a client and reading it back\<close>

text \<open>
  Claim C1, as amended. When \<open>create_client\<close> is given a snapshot id that is not
  empty and succeeds, \<open>get_client_info\<close> for the same name returns the record with
  \<open>mount\<close> the mount point supplied, \<open>bind-mounts\<close> the dictionary that the build-artifacts
  flag selects (empty, or the one entry \<open>buck-out\<close>), and \<open>snapshot\<close> the snapshot id
  as it is read back from a text file and stripped: every carriage return, alone or
  before a line feed, has become a line feed, and the white space at both ends is gone.
  That is exactly the id supplied when it holds no carriage return and neither starts nor
  ends with white space. This holds for every name, mount point, repository type and
  source.
\<close>

theorem create_then_get_client_info:
  assumes sid: "sid \<noteq> []"
    and ok: "fst (create_client config_dir name mount_point (Some sid) repo_type repo_source
               with_buck w) = Inr ()"
  shows "get_client_info config_dir name
           (snd (create_client config_dir name mount_point (Some sid) repo_type repo_source
                  with_buck w))
         = Inr \<lparr>info_bind_mounts =
                   JObj (if with_buck then [(''buck-out'', JStr ''buck-out'')] else []),
                 info_mount = JStr mount_point,
                 info_snapshot = strip (universal_newlines sid),
                 info_client_dir = posix_join (get_clients_dir config_dir) name\<rparr>
       \<and> (CHR 0x0D \<notin> set sid \<and> \<not> isspace (hd sid) \<and> \<not> isspace (last sid) \<longrightarrow>
            strip (universal_newlines sid) = sid)"
proof
  let ?cd = "posix_join (get_clients_dir config_dir) name"
  let ?doc = "[Doc (config_document mount_point repo_type repo_source with_buck),
               Chars [CHR 0x0A]]"
  let ?line = "[Chars (sid @ [CHR 0x0A])]"
  have cdne: "?cd \<noteq> []"
    by (rule client_dir_nonempty)
  from ok obtain w4 where
    c: "fst (write_file (posix_join ?cd CONFIG_JSON) ?doc w4) = Inr ()"
    and e: "create_client config_dir name mount_point (Some sid) repo_type repo_source with_buck w
         = finish_client config_dir name (Some sid)
             (snd (write_file (posix_join ?cd CONFIG_JSON) ?doc w4))"
    by (rule create_client_success)
  define w5 where "w5 = snd (write_file (posix_join ?cd CONFIG_JSON) ?doc w4)"
  define w6 where "w6 = snd (write_file (posix_join ?cd SNAPSHOT) ?line w5)"
  have final: "create_client config_dir name mount_point (Some sid) repo_type repo_source
                 with_buck w
               = write_file (posix_join ?cd SNAPSHOT) ?line w5"
    using e sid by (simp add: finish_client_snapshot w5_def)
  \<comment> \<open>the config document is written into the client directory\<close>
  obtain P where cdz: "\<not> embedded_null ?cd" and r4: "resolve w4 ?cd = Inr P"
    and nd4: "node_at w4 (P @ [CONFIG_JSON]) \<noteq> Some Dir"
    and w5: "w5 = w4\<lparr>fs := (fs w4)(P @ [CONFIG_JSON] \<mapsto> File ?doc),
                     events := events w4 @ [EvWrite (P @ [CONFIG_JSON])]\<rparr>"
    and d4: "node_at w4 P = Some Dir"
    unfolding w5_def using valid_name_CONFIG_JSON cdne c by (rule write_join_success)
  have n5: "node_at w5 q = (if q = P @ [CONFIG_JSON] then Some (File ?doc) else node_at w4 q)"
    for q
    unfolding w5 by (rule node_at_fs_update) simp
  have r5: "resolve w5 ?cd = Inr P"
    unfolding w5 using nd4 r4 by (intro resolve_fs_update) simp_all
  \<comment> \<open>and so is the snapshot id\<close>
  have s: "fst (write_file (posix_join ?cd SNAPSHOT) ?line w5) = Inr ()"
    using ok final by simp
  obtain P' where r5': "resolve w5 ?cd = Inr P'"
    and nd5: "node_at w5 (P' @ [SNAPSHOT]) \<noteq> Some Dir"
    and w6': "w6 = w5\<lparr>fs := (fs w5)(P' @ [SNAPSHOT] \<mapsto> File ?line),
                     events := events w5 @ [EvWrite (P' @ [SNAPSHOT])]\<rparr>"
    unfolding w6_def using valid_name_SNAPSHOT cdne s by (rule write_join_success)
  from r5 r5' have "P' = P"
    by simp
  note nd5 = nd5 [unfolded this] and w6 = w6' [unfolded this]
  have n6: "node_at w6 q = (if q = P @ [SNAPSHOT] then Some (File ?line) else node_at w5 q)"
    for q
    unfolding w6 by (rule node_at_fs_update) simp
  have r6: "resolve w6 ?cd = Inr P"
    unfolding w6 using nd5 r5 by (intro resolve_fs_update) simp_all
  have d6: "node_at w6 P = Some Dir"
    using d4 by (simp add: n6 n5)
  \<comment> \<open>what \<open>get_client_info\<close> reads\<close>
  have names: "CONFIG_JSON \<noteq> SNAPSHOT"
    by (simp add: CONFIG_JSON_def SNAPSHOT_def)
  have dir6: "isdir w6 ?cd"
    using cdz r6 d6 by (rule isdir_resolved)
  have cfg: "open_read (posix_join ?cd CONFIG_JSON) w6 = Inr ?doc"
    using names
    by (simp add: open_read_join [OF valid_name_CONFIG_JSON _ cdne cdz r6 d6] n6 n5)
  have snap: "open_read (posix_join ?cd SNAPSHOT) w6 = Inr ?line"
    by (simp add: open_read_join [OF valid_name_SNAPSHOT _ cdne cdz r6 d6] n6)
  have "get_client_info config_dir name w6
         = Inr \<lparr>info_bind_mounts =
                   JObj (if with_buck then [(''buck-out'', JStr ''buck-out'')] else []),
                 info_mount = JStr mount_point,
                 info_snapshot = strip (universal_newlines sid),
                 info_client_dir = ?cd\<rparr>"
    using dir6
    by (simp add: get_client_info_def cfg snap json_load_document config_document_def
        read_text_def read_back_line)
  then show "get_client_info config_dir name
           (snd (create_client config_dir name mount_point (Some sid) repo_type repo_source
                  with_buck w))
         = Inr \<lparr>info_bind_mounts =
                   JObj (if with_buck then [(''buck-out'', JStr ''buck-out'')] else []),
                 info_mount = JStr mount_point,
                 info_snapshot = strip (universal_newlines sid),
                 info_client_dir = ?cd\<rparr>"
    by (simp add: final w6_def)
next
  show "CHR 0x0D \<notin> set sid \<and> \<not> isspace (hd sid) \<and> \<not> isspace (last sid) \<longrightarrow>
          strip (universal_newlines sid) = sid"
    by (simp add: universal_newlines_plain strip_plain)
qed

theorem create_then_get_client_info_witness:
  "get_client_info ''/r'' ''c''
     (snd (create_client ''/r'' ''c'' ''/m/x'' (Some ''abc'') ''git'' ''/src'' True demo_world))
   = Inr \<lparr>info_bind_mounts = JObj [(''buck-out'', JStr ''buck-out'')],
           info_mount = JStr ''/m/x'',
           info_snapshot = ''abc'',
           info_client_dir = ''/r/clients/c''\<rparr>"
proof -
  have ok: "fst (create_client ''/r'' ''c'' ''/m/x'' (Some ''abc'') ''git'' ''/src'' True
                  demo_world) = Inr ()"
    by code_simp
  have sid: "''abc'' \<noteq> []"
    by simp
  have "strip (universal_newlines ''abc'') = ''abc''"
    by code_simp
  moreover have "posix_join (get_clients_dir ''/r'') ''c'' = ''/r/clients/c''"
    by code_simp
  ultimately show ?thesis
    using create_then_get_client_info [OF sid ok] by simp
qed

text \<open>
  The claim as stated fails in three ways. With no snapshot id, \<open>create_client\<close> succeeds
  and writes no \<open>SNAPSHOT\<close> file, and \<open>get_client_info\<close> then returns no record at all:
  opening the file raises. With the snapshot id \<open>abc\<close> followed by a space, the record
  holds \<open>abc\<close>. With a carriage return between \<open>a\<close> and \<open>b\<close>, the record holds a line feed
  between them.
\<close>

theorem create_then_get_client_info_counterexample:
  "fst (create_client ''/r'' ''c'' ''/m/x'' None ''git'' ''/src'' False demo_world) = Inr ()
   \<and> get_client_info ''/r'' ''c''
       (snd (create_client ''/r'' ''c'' ''/m/x'' None ''git'' ''/src'' False demo_world))
     = Inl (IOError ENOENT ''/r/clients/c/SNAPSHOT'')
   \<and> fst (create_client ''/r'' ''c'' ''/m/x'' (Some ''abc '') ''git'' ''/src'' False demo_world)
     = Inr ()
   \<and> get_client_info ''/r'' ''c''
       (snd (create_client ''/r'' ''c'' ''/m/x'' (Some ''abc '') ''git'' ''/src'' False
              demo_world))
     = Inr \<lparr>info_bind_mounts = JObj [],
             info_mount = JStr ''/m/x'',
             info_snapshot = ''abc'',
             info_client_dir = ''/r/clients/c''\<rparr>
   \<and> fst (create_client ''/r'' ''c'' ''/m/x'' (Some [CHR ''a'', CHR 0x0D, CHR ''b'']) ''git''
            ''/src'' False demo_world)
     = Inr ()
   \<and> get_client_info ''/r'' ''c''
       (snd (create_client ''/r'' ''c'' ''/m/x'' (Some [CHR ''a'', CHR 0x0D, CHR ''b'']) ''git''
              ''/src'' False demo_world))
     = Inr \<lparr>info_bind_mounts = JObj [],
             info_mount = JStr ''/m/x'',
             info_snapshot = [CHR ''a'', CHR 0x0A, CHR ''b''],
             info_client_dir = ''/r/clients/c''\<rparr>"
  by code_simp

subsection \<open>A client without a snapshot\<close>

lemma IOError_is_not_no_such_client: "IOError e s \<noteq> no_such_client name"
  by (simp add: no_such_client_def)

text \<open>
  A client with a valid name, made in a directory tree without a snapshot id: its
  directory and its config document are there, and there is no \<open>SNAPSHOT\<close> file.
\<close>

lemma create_client_without_snapshot:
  assumes t: "tree w"
    and n: "valid_name name"
    and ok: "fst (create_client config_dir name mount_point snapshot_id repo_type repo_source
               with_buck w) = Inr ()"
    and falsy: "snapshot_id = None \<or> snapshot_id = Some []"
  shows "isdir (snd (create_client config_dir name mount_point snapshot_id repo_type
                        repo_source with_buck w))
           (posix_join (get_clients_dir config_dir) name)
       \<and> open_read (posix_join (posix_join (get_clients_dir config_dir) name) CONFIG_JSON)
           (snd (create_client config_dir name mount_point snapshot_id repo_type
                   repo_source with_buck w))
         = Inr [Doc (config_document mount_point repo_type repo_source with_buck),
                Chars [CHR 0x0A]]
       \<and> \<not> path_exists (snd (create_client config_dir name mount_point snapshot_id repo_type
                               repo_source with_buck w))
             (posix_join (posix_join (get_clients_dir config_dir) name) SNAPSHOT)"
proof -
  let ?cl = "get_clients_dir config_dir"
  let ?cd = "posix_join ?cl name"
  let ?bm = "posix_join ?cd ''bind-mounts''"
  let ?bo = "posix_join ?bm ''buck-out''"
  let ?doc = "[Doc (config_document mount_point repo_type repo_source with_buck),
               Chars [CHR 0x0A]]"
  let ?final = "snd (create_client config_dir name mount_point snapshot_id repo_type
                   repo_source with_buck w)"
  from create_client_stages [OF ok] obtain w1 w2 w3 w4 where
    s1: "verify_mount_point mount_point w = (Inr (), w1)"
    and nd: "\<not> isdir w1 ?cd"
    and s2: "makedirs ?cd w1 = (Inr (), w2)"
    and s3: "makedirs ?bm w2 = (Inr (), w3)"
    and s4: "(if with_buck then makedirs ?bo w3 else (Inr (), w3)) = (Inr (), w4)"
    and s5: "fst (write_file (posix_join ?cd CONFIG_JSON) ?doc w4) = Inr ()"
    and fin: "create_client config_dir name mount_point snapshot_id repo_type repo_source
                with_buck w
              = finish_client config_dir name snapshot_id
                  (snd (write_file (posix_join ?cd CONFIG_JSON) ?doc w4))"
    by (elim exE conjE)
  have clne: "?cl \<noteq> []"
    by (simp add: get_clients_dir_def CLIENTS_DIR_def posix_join_nonempty)
  have cdne: "?cd \<noteq> []"
    by (rule client_dir_nonempty)
  have bmne: "?bm \<noteq> []"
    by (simp add: posix_join_nonempty)
  \<comment> \<open>the client directory is made last, in a tree where it is not yet\<close>
  have t1: "tree w1"
    using tree_verify_mount_point [OF t, of mount_point] s1 by simp
  from s2 have ok2: "fst (makedirs ?cd w1) = Inr ()"
    by simp
  from makedirs_join_success [OF n ok2] obtain w1' where
    w1': "w1' = w1 \<or> w1' = snd (makedirs (fst (posix_split ?cd)) w1)"
    and m2: "makedirs ?cd w1 = mkdir ?cd w1'"
    by blast
  from w1' t1 have t1': "tree w1'"
    by (auto simp: tree_makedirs)
  from m2 s2 have "mkdir ?cd w1' = (Inr (), w2)"
    by simp
  then have mk: "fst (mkdir ?cd w1') = Inr ()" and w2: "w2 = snd (mkdir ?cd w1')"
    by simp_all
  obtain C where clz: "\<not> embedded_null ?cl" and nz: "\<not> embedded_null name"
    and C: "resolve w1' ?cl = Inr C" "node_at w1' C = Some Dir"
    and fresh: "node_at w1' (C @ [name]) = None"
    and w2': "w2 = w1'\<lparr>fs := (fs w1')(C @ [name] \<mapsto> Dir),
                         events := events w1' @ [EvMkdir (C @ [name])]\<rparr>"
    unfolding w2 using n clne mk by (rule mkdir_join_success)
  define P where "P = C @ [name]"
  note fresh = fresh [folded P_def] and w2' = w2' [folded P_def]
  have Pne: "P \<noteq> []"
    by (simp add: P_def)
  have cdz: "\<not> embedded_null ?cd"
    using n nz clz by (simp add: embedded_null_valid_join)
  have bmz: "\<not> embedded_null ?bm"
    using cdz by (simp add: embedded_null_valid_join valid_name_bind_mounts)
  have below: "node_at w1' (P @ q) = None" for q
    using t1' fresh by (rule tree_below_nothing)
  have n2: "node_at w2 q = (if q = P then Some Dir else node_at w1' q)" for q
    unfolding w2' using Pne by (rule node_at_fs_update)
  have "resolve w1' ?cd = Inr P"
    unfolding P_def using n clne C by (rule resolve_join_dir)
  then have r2: "resolve w2 ?cd = Inr P"
    unfolding w2' using Pne by (intro resolve_fs_update) simp_all
  have d2: "node_at w2 P = Some Dir"
    by (simp add: n2)
  \<comment> \<open>the directories below it\<close>
  have "makedirs ?bm w2 = mkdir ?bm w2"
    using valid_name_bind_mounts(1) path_exists_resolved [OF cdz r2 d2]
    by (intro makedirs_join_existing) simp_all
  with s3 have "mkdir ?bm w2 = (Inr (), w3)"
    by simp
  then have mk3: "fst (mkdir ?bm w2) = Inr ()" and w3: "w3 = snd (mkdir ?bm w2)"
    by simp_all
  obtain P3 where "resolve w2 ?cd = Inr P3"
    and w3': "w3 = w2\<lparr>fs := (fs w2)(P3 @ [''bind-mounts''] \<mapsto> Dir),
                       events := events w2 @ [EvMkdir (P3 @ [''bind-mounts''])]\<rparr>"
    unfolding w3 using valid_name_bind_mounts(1) cdne mk3 by (rule mkdir_join_success)
  with r2 have "P3 = P"
    by simp
  note w3' = w3' [unfolded this]
  have n3: "node_at w3 q = (if q = P @ [''bind-mounts''] then Some Dir else node_at w2 q)" for q
    unfolding w3' by (rule node_at_fs_update) simp
  have r3: "resolve w3 ?cd = Inr P"
    unfolding w3' using r2 by (intro resolve_fs_update) simp_all
  have d3: "node_at w3 P = Some Dir"
    by (simp add: n3 n2)
  have rb3: "resolve w3 ?bm = Inr (P @ [''bind-mounts''])"
    using valid_name_bind_mounts(1) cdne r3 d3 by (rule resolve_join_dir)
  have db3: "node_at w3 (P @ [''bind-mounts'']) = Some Dir"
    by (simp add: n3)
  have n4: "node_at w4 (P @ [x]) = node_at w3 (P @ [x])" and r4: "resolve w4 ?cd = Inr P"
    and d4: "node_at w4 P = Some Dir" for x
  proof -
    have "node_at w4 (P @ [x]) = node_at w3 (P @ [x]) \<and> resolve w4 ?cd = Inr P
        \<and> node_at w4 P = Some Dir"
    proof (cases with_buck)
      case False
      with s4 have "w4 = w3" by simp
      then show ?thesis by (simp add: r3 d3)
    next
      case True
      have "makedirs ?bo w3 = mkdir ?bo w3"
        using valid_name_bind_mounts(2) path_exists_resolved [OF bmz rb3 db3]
        by (intro makedirs_join_existing) simp_all
      with s4 True have "mkdir ?bo w3 = (Inr (), w4)"
        by simp
      then have mk4: "fst (mkdir ?bo w3) = Inr ()" and w4: "w4 = snd (mkdir ?bo w3)"
        by simp_all
      obtain B where "resolve w3 ?bm = Inr B"
        and w4': "w4 = w3\<lparr>fs := (fs w3)(B @ [''buck-out''] \<mapsto> Dir),
                           events := events w3 @ [EvMkdir (B @ [''buck-out''])]\<rparr>"
        unfolding w4 using valid_name_bind_mounts(2) bmne mk4 by (rule mkdir_join_success)
      with rb3 have "B = P @ [''bind-mounts'']"
        by simp
      note w4' = w4' [unfolded this]
      have "node_at w4 q = (if q = (P @ [''bind-mounts'']) @ [''buck-out''] then Some Dir
                            else node_at w3 q)" for q
        unfolding w4' by (rule node_at_fs_update) simp
      moreover have "resolve w4 ?cd = Inr P"
        unfolding w4' using r3 by (intro resolve_fs_update) simp_all
      ultimately show ?thesis
        by (simp add: d3)
    qed
    then show "node_at w4 (P @ [x]) = node_at w3 (P @ [x])" and "resolve w4 ?cd = Inr P"
      and "node_at w4 P = Some Dir"
      by simp_all
  qed
  \<comment> \<open>the config document\<close>
  define w5 where "w5 = snd (write_file (posix_join ?cd CONFIG_JSON) ?doc w4)"
  obtain P5 where "resolve w4 ?cd = Inr P5"
    and nd4: "node_at w4 (P5 @ [CONFIG_JSON]) \<noteq> Some Dir"
    and w5': "w5 = w4\<lparr>fs := (fs w4)(P5 @ [CONFIG_JSON] \<mapsto> File ?doc),
                       events := events w4 @ [EvWrite (P5 @ [CONFIG_JSON])]\<rparr>"
    unfolding w5_def using valid_name_CONFIG_JSON cdne s5 by (rule write_join_success)
  with r4 have "P5 = P"
    by simp
  note nd4 = nd4 [unfolded this] and w5' = w5' [unfolded this]
  have n5: "node_at w5 q = (if q = P @ [CONFIG_JSON] then Some (File ?doc) else node_at w4 q)"
    for q
    unfolding w5' by (rule node_at_fs_update) simp
  have r5: "resolve w5 ?cd = Inr P"
    unfolding w5' using nd4 r4 by (intro resolve_fs_update) simp_all
  have d5: "node_at w5 P = Some Dir"
    by (simp add: n5 d4)
  have final: "?final = w5"
    using fin falsy by (auto simp: finish_client_def w5_def)
  have "isdir w5 ?cd"
    using cdz r5 d5 by (rule isdir_resolved)
  moreover have "open_read (posix_join ?cd CONFIG_JSON) w5 = Inr ?doc"
    by (simp add: open_read_join [OF valid_name_CONFIG_JSON _ cdne cdz r5 d5] n5)
  moreover have "\<not> path_exists w5 (posix_join ?cd SNAPSHOT)"
  proof -
    have "node_at w5 (P @ [SNAPSHOT]) = node_at w1' (P @ [SNAPSHOT])"
      by (simp add: n5 n4 n3 n2 CONFIG_JSON_def SNAPSHOT_def)
    with below [of "[SNAPSHOT]"] show ?thesis
      by (simp add: path_exists_join(1) [OF valid_name_SNAPSHOT _ cdne cdz r5 d5])
  qed
  ultimately show ?thesis
    by (simp add: final)
qed

text \<open>
  Claim C9. For a client whose directory exists and whose \<open>config.json\<close> can be opened and
  holds a document, but which has no \<open>SNAPSHOT\<close> file, \<open>get_client_info\<close> returns no
  record: it raises the \<open>IOError\<close> (\<open>ENOENT\<close>) of opening the missing file, which is not the
  error for a missing client. That is the state \<open>create_client\<close> leaves when it is given
  no snapshot id, or an empty one, for a valid name in a directory tree.
\<close>

theorem get_client_info_without_snapshot:
  "(isdir w (posix_join (get_clients_dir config_dir) name)
      \<and> open_read (posix_join (posix_join (get_clients_dir config_dir) name) CONFIG_JSON) w
          = Inr f
      \<and> json_load f = Inr config_data
      \<and> \<not> path_exists w (posix_join (posix_join (get_clients_dir config_dir) name) SNAPSHOT)
    \<longrightarrow>
    get_client_info config_dir name w
      = Inl (IOError ENOENT (posix_join (posix_join (get_clients_dir config_dir) name) SNAPSHOT))
    \<and> get_client_info config_dir name w \<noteq> Inl (no_such_client name))
   \<and> (tree w \<and> valid_name name
      \<and> fst (create_client config_dir name mount_point snapshot_id repo_type repo_source
               with_buck w) = Inr ()
      \<and> (snapshot_id = None \<or> snapshot_id = Some []) \<longrightarrow>
    get_client_info config_dir name
      (snd (create_client config_dir name mount_point snapshot_id repo_type repo_source
              with_buck w))
      = Inl (IOError ENOENT (posix_join (posix_join (get_clients_dir config_dir) name) SNAPSHOT)))"
proof -
  let ?cd = "posix_join (get_clients_dir config_dir) name"
  have missing: "open_read (posix_join ?cd SNAPSHOT) v = Inl (IOError ENOENT (posix_join ?cd SNAPSHOT))"
    if "isdir v ?cd" and "\<not> path_exists v (posix_join ?cd SNAPSHOT)" for v
  proof -
    from that(1) obtain P where cd: "?cd \<noteq> []" "\<not> embedded_null ?cd" "resolve v ?cd = Inr P"
      "node_at v P = Some Dir"
      by (rule isdir_resolves)
    from that(2) have "node_at v (P @ [SNAPSHOT]) = None"
      by (simp add: path_exists_join(1) [OF valid_name_SNAPSHOT _ cd])
    then show ?thesis
      by (simp add: open_read_join [OF valid_name_SNAPSHOT _ cd])
  qed
  show ?thesis
  proof (intro conjI impI)
    assume a: "isdir w ?cd
        \<and> open_read (posix_join ?cd CONFIG_JSON) w = Inr f
        \<and> json_load f = Inr config_data
        \<and> \<not> path_exists w (posix_join ?cd SNAPSHOT)"
    then show "get_client_info config_dir name w = Inl (IOError ENOENT (posix_join ?cd SNAPSHOT))"
      by (simp add: get_client_info_def missing)
    then show "get_client_info config_dir name w \<noteq> Inl (no_such_client name)"
      by (simp add: IOError_is_not_no_such_client)
  next
    let ?final = "snd (create_client config_dir name mount_point snapshot_id repo_type
                     repo_source with_buck w)"
    assume "tree w \<and> valid_name name
        \<and> fst (create_client config_dir name mount_point snapshot_id repo_type repo_source
                 with_buck w) = Inr ()
        \<and> (snapshot_id = None \<or> snapshot_id = Some [])"
    then have "isdir ?final ?cd
         \<and> open_read (posix_join ?cd CONFIG_JSON) ?final
           = Inr [Doc (config_document mount_point repo_type repo_source with_buck),
                  Chars [CHR 0x0A]]
         \<and> \<not> path_exists ?final (posix_join ?cd SNAPSHOT)"
      by (intro create_client_without_snapshot) simp_all
    then show "get_client_info config_dir name ?final
        = Inl (IOError ENOENT (posix_join ?cd SNAPSHOT))"
      by (simp add: get_client_info_def missing json_load_document)
  qed
qed

theorem get_client_info_without_snapshot_witness:
  "get_client_info ''/r'' ''c'' bare_client_world = Inl (IOError ENOENT ''/r/clients/c/SNAPSHOT'')
   \<and> get_client_info ''/r'' ''c'' bare_client_world \<noteq> Inl (no_such_client ''c'')
   \<and> get_client_info ''/r'' ''d''
        (snd (create_client ''/r'' ''d'' ''/m'' (Some []) ''git'' ''/src'' True demo_world))
      = Inl (IOError ENOENT ''/r/clients/d/SNAPSHOT'')"
proof -
  let ?doc = "[Doc (config_document ''/m/x'' ''git'' ''/src'' False), Chars [CHR 0x0A]]"
  have d: "isdir bare_client_world (posix_join (get_clients_dir ''/r'') ''c'')"
    by code_simp
  have c: "open_read (posix_join (posix_join (get_clients_dir ''/r'') ''c'') CONFIG_JSON)
             bare_client_world = Inr ?doc"
    by code_simp
  have j: "json_load ?doc = Inr (config_document ''/m/x'' ''git'' ''/src'' False)"
    by (rule json_load_document)
  have s: "\<not> path_exists bare_client_world
             (posix_join (posix_join (get_clients_dir ''/r'') ''c'') SNAPSHOT)"
    by code_simp
  have p: "posix_join (posix_join (get_clients_dir ''/r'') ''c'') SNAPSHOT
             = ''/r/clients/c/SNAPSHOT''"
    "posix_join (posix_join (get_clients_dir ''/r'') ''d'') SNAPSHOT = ''/r/clients/d/SNAPSHOT''"
    by code_simp+
  have made: "fst (create_client ''/r'' ''d'' ''/m'' (Some []) ''git'' ''/src'' True demo_world)
      = Inr ()"
    by code_simp
  have v: "valid_name ''d''"
    by (simp add: valid_name_def)
  have "get_client_info ''/r'' ''c'' bare_client_world
      = Inl (IOError ENOENT (posix_join (posix_join (get_clients_dir ''/r'') ''c'') SNAPSHOT))
    \<and> get_client_info ''/r'' ''c'' bare_client_world \<noteq> Inl (no_such_client ''c'')"
    using get_client_info_without_snapshot [where w = bare_client_world and config_dir = "''/r''"
        and name = "''c''" and f = ?doc] d c j s
    by blast
  moreover have "get_client_info ''/r'' ''d''
        (snd (create_client ''/r'' ''d'' ''/m'' (Some []) ''git'' ''/src'' True demo_world))
      = Inl (IOError ENOENT (posix_join (posix_join (get_clients_dir ''/r'') ''d'') SNAPSHOT))"
    using get_client_info_without_snapshot [where w = demo_world and config_dir = "''/r''"
        and name = "''d''" and snapshot_id = "Some []" and mount_point = "''/m''"
        and repo_type = "''git''" and repo_source = "''/src''" and with_buck = True]
      tree_demo_world v made
    by blast
  ultimately show ?thesis
    by (simp add: p IOError_is_not_no_such_client)
qed

subsection \<open>Creating a client that exists\<close>

text \<open>
  Claim C10, as amended. \<open>create_client\<close> validates the mount point before it looks for
  the client. For a client that exists: when neither the mount point nor the path that
  \<open>os.path.dirname\<close> gives for it is a directory, the call raises the mount-point error,
  which is not the error for an existing client, and changes nothing; when nothing exists
  at the mount point, its path holds no NUL character and \<open>os.path.dirname\<close> gives a
  directory for it, the call raises the error for an existing client, and the world it
  leaves differs from the one it found by the new mount point directory alone (one
  \<open>mkdir\<close> in the trace). So the registry tree is as it was, unless the mount point lies
  inside it.
\<close>

theorem create_client_validates_first:
  assumes "isdir w (posix_join (get_clients_dir config_dir) name)"
  shows "(\<not> isdir w mount_point \<and> \<not> isdir w (dirname mount_point) \<longrightarrow>
            create_client config_dir name mount_point snapshot_id repo_type repo_source
              with_buck w
            = (Inl (Exception (mount_point_message (dirname mount_point) mount_point)), w)
            \<and> Exception (mount_point_message (dirname mount_point) mount_point)
                \<noteq> already_exists name)
       \<and> (\<not> path_exists w mount_point \<and> \<not> embedded_null mount_point
            \<and> isdir w (dirname mount_point) \<longrightarrow>
            (\<exists>q. resolve w mount_point = Inr q \<and> node_at w q = None
               \<and> create_client config_dir name mount_point snapshot_id repo_type repo_source
                    with_buck w
                  = (Inl (already_exists name),
                     w\<lparr>fs := (fs w)(q \<mapsto> Dir), events := events w @ [EvMkdir q]\<rparr>)))"
proof (intro conjI impI)
  assume "\<not> isdir w mount_point \<and> \<not> isdir w (dirname mount_point)"
  then show "create_client config_dir name mount_point snapshot_id repo_type repo_source
              with_buck w
            = (Inl (Exception (mount_point_message (dirname mount_point) mount_point)), w)"
    by (simp add: create_client_staged verify_mount_point_no_parent then_do_def)
next
  show "Exception (mount_point_message (dirname mount_point) mount_point) \<noteq> already_exists name"
    by (rule mount_point_message_differs)
next
  assume a: "\<not> path_exists w mount_point \<and> \<not> embedded_null mount_point
            \<and> isdir w (dirname mount_point)"
  then obtain q where q: "resolve w mount_point = Inr q" "node_at w q = None"
    and v: "verify_mount_point mount_point w
         = (Inr (), w\<lparr>fs := (fs w)(q \<mapsto> Dir), events := events w @ [EvMkdir q]\<rparr>)"
    by (auto elim: verify_mount_point_creates)
  let ?w1 = "w\<lparr>fs := (fs w)(q \<mapsto> Dir), events := events w @ [EvMkdir q]\<rparr>"
  have "grows w (snd (verify_mount_point mount_point w))"
    by (rule verify_mount_point_grows)
  with assms have "isdir ?w1 (posix_join (get_clients_dir config_dir) name)"
    using v by (auto dest: grows_isdir)
  with v have "create_client config_dir name mount_point snapshot_id repo_type repo_source
              with_buck w = (Inl (already_exists name), ?w1)"
    by (simp add: create_client_staged then_do_def)
  with q show "\<exists>q. resolve w mount_point = Inr q \<and> node_at w q = None
               \<and> create_client config_dir name mount_point snapshot_id repo_type repo_source
                    with_buck w
                  = (Inl (already_exists name),
                     w\<lparr>fs := (fs w)(q \<mapsto> Dir), events := events w @ [EvMkdir q]\<rparr>)"
    by blast
qed

text \<open>
  The registry \<open>/r\<close> with its client \<open>c\<close>; a mount point \<open>/nowhere/x\<close> without a parent, and
  a mount point \<open>/m/y\<close> to be made outside the registry.
\<close>

theorem create_client_validates_first_witness:
  "create_client ''/r'' ''c'' ''/nowhere/x'' None ''git'' ''/src'' False client_world
     = (Inl (Exception (mount_point_message ''/nowhere'' ''/nowhere/x'')), client_world)
   \<and> create_client ''/r'' ''c'' ''/m/y'' None ''git'' ''/src'' False client_world
     = (Inl (already_exists ''c''),
        client_world\<lparr>fs := (fs client_world)([''m'', ''y''] \<mapsto> Dir),
                      events := events client_world @ [EvMkdir [''m'', ''y'']]\<rparr>)"
proof -
  have c: "isdir client_world (posix_join (get_clients_dir ''/r'') ''c'')"
    by code_simp
  have d1: "dirname ''/nowhere/x'' = ''/nowhere''"
    by code_simp
  have a1: "\<not> isdir client_world ''/nowhere/x'' \<and> \<not> isdir client_world (dirname ''/nowhere/x'')"
    by code_simp
  have r2: "resolve client_world ''/m/y'' = Inr [''m'', ''y'']"
    by code_simp
  have a2: "\<not> path_exists client_world ''/m/y'' \<and> \<not> embedded_null ''/m/y''
      \<and> isdir client_world (dirname ''/m/y'')"
    by code_simp
  from create_client_validates_first [OF c, of "''/nowhere/x''" None "''git''" "''/src''" False] a1
  have "create_client ''/r'' ''c'' ''/nowhere/x'' None ''git'' ''/src'' False client_world
     = (Inl (Exception (mount_point_message ''/nowhere'' ''/nowhere/x'')), client_world)"
    by (simp add: d1)
  moreover
  from create_client_validates_first [OF c, of "''/m/y''" None "''git''" "''/src''" False] a2
  have "\<exists>q. resolve client_world ''/m/y'' = Inr q
     \<and> create_client ''/r'' ''c'' ''/m/y'' None ''git'' ''/src'' False client_world
     = (Inl (already_exists ''c''),
        client_world\<lparr>fs := (fs client_world)(q \<mapsto> Dir),
                      events := events client_world @ [EvMkdir q]\<rparr>)"
    by blast
  then have "create_client ''/r'' ''c'' ''/m/y'' None ''git'' ''/src'' False client_world
     = (Inl (already_exists ''c''),
        client_world\<lparr>fs := (fs client_world)([''m'', ''y''] \<mapsto> Dir),
                      events := events client_world @ [EvMkdir [''m'', ''y'']]\<rparr>)"
    by (auto simp: r2)
  ultimately show ?thesis
    by (intro conjI)
qed

text \<open>
  The claim as stated fails in three ways. For a mount point inside the registry, the
  failed call leaves a new directory \<open>x\<close> in the directory of client \<open>c\<close>. For the mount
  point \<open>/m/y/\<close>, which does not exist while its parent \<open>/m\<close> does, the call makes no
  directory and raises the mount-point error: \<open>os.path.dirname\<close> gives \<open>/m/y\<close>. For a mount
  point with a NUL character in the directory \<open>/m\<close>, \<open>os.mkdir\<close> raises \<open>ValueError\<close>.
\<close>

theorem create_client_validates_first_counterexample:
  "fst (create_client ''/r'' ''c'' ''/r/clients/c/x'' None ''git'' ''/src'' False client_world)
     = Inl (already_exists ''c'')
   \<and> fs client_world [''r'', ''clients'', ''c'', ''x''] = None
   \<and> fs (snd (create_client ''/r'' ''c'' ''/r/clients/c/x'' None ''git'' ''/src'' False
               client_world)) [''r'', ''clients'', ''c'', ''x''] = Some Dir
   \<and> \<not> path_exists client_world ''/m/y/'' \<and> isdir client_world ''/m''
   \<and> fst (create_client ''/r'' ''c'' ''/m/y/'' None ''git'' ''/src'' False client_world)
     = Inl (Exception (mount_point_message ''/m/y'' ''/m/y/''))
   \<and> fs (snd (create_client ''/r'' ''c'' ''/m/y/'' None ''git'' ''/src'' False client_world))
       [''m'', ''y''] = None
   \<and> \<not> path_exists client_world (''/m/'' @ [CHR 0x00])
   \<and> fst (create_client ''/r'' ''c'' (''/m/'' @ [CHR 0x00]) None ''git'' ''/src'' False
            client_world)
     = Inl ValueError"
  by code_simp

subsection \<open>The get-or-create helpers\<close>

text \<open>
  Whatever is in a directory under a name, a directory or a file, \<open>_get_or_create_dir\<close>
  returns its path and changes nothing.
\<close>

lemma get_or_create_dir_existing:
  assumes "valid_name n" and "isdir w d" and "path_exists w (posix_join d n)"
  shows "get_or_create_dir (posix_join d n) w = (Inr (posix_join d n), w)"
proof -
  from assms(3) obtain q x where nul: "\<not> embedded_null (posix_join d n)"
    and q: "resolve w (posix_join d n) = Inr q" "node_at w q = Some x"
    by (auto simp: path_exists_def lookup_def split: sum.splits option.splits)
  from assms(1,2) have "makedirs (posix_join d n) w = mkdir (posix_join d n) w"
    by (simp add: makedirs_join_existing isdir_path_exists)
  also have "\<dots> = (Inl (OSError EEXIST (posix_join d n)), w)"
  proof (rule mkdir_existing [OF nul])
    show "resolve_entry w (posix_join d n) = Inr q"
      using q(1) assms(1) by (simp add: resolve_entry_join)
    show "node_at w q \<noteq> None"
      using q(2) by simp
  qed
  finally show ?thesis
    by (simp add: get_or_create_dir_def)
qed

text \<open>Where the directory that is to hold the path is a regular file, the error is raised.\<close>

lemma get_or_create_dir_in_file:
  assumes "valid_name n" and "\<not> embedded_null n" and "isfile w d"
  shows "get_or_create_dir (posix_join d n) w = (Inl (OSError ENOTDIR (posix_join d n)), w)"
proof -
  from assms(3) obtain p c where nul: "\<not> embedded_null d"
    and p: "resolve w d = Inr p" "node_at w p = Some (File c)"
    by (auto simp: isfile_def lookup_def split: sum.splits option.splits node.splits)
  from p(1) have dne: "d \<noteq> []"
    by (auto simp: resolve_def)
  from assms(1) have "CHR ''/'' \<notin> set n"
    by (simp add: valid_name_def)
  with dne p have r: "resolve w (posix_join d n) = Inl ENOTDIR"
    by (simp add: resolve_join)
  from nul p have "path_exists w d"
    by (simp add: path_exists_def lookup_def)
  with assms(1) have "makedirs (posix_join d n) w = mkdir (posix_join d n) w"
    by (simp add: makedirs_join_existing)
  also have "\<dots> = (Inl (OSError ENOTDIR (posix_join d n)), w)"
    using assms(1,2) nul r
    by (intro mkdir_unresolved) (simp_all add: resolve_entry_join embedded_null_valid_join)
  finally show ?thesis
    by (simp add: get_or_create_dir_def)
qed

text \<open>Every \<open>OSError\<close> of \<open>os.makedirs\<close> but \<open>EEXIST\<close> is raised again.\<close>

lemma get_or_create_dir_propagates:
  "makedirs path w = (Inl (OSError e p), w') \<Longrightarrow> e \<noteq> EEXIST \<Longrightarrow>
   get_or_create_dir path w = (Inl (OSError e p), w')"
  by (simp add: get_or_create_dir_def)

text \<open>A regular file is taken for the directory, wherever it is.\<close>

lemma get_or_create_dir_on_file:
  assumes "isfile w path"
  shows "get_or_create_dir path w = (Inr path, w)"
proof -
  from assms obtain q c where nul: "\<not> embedded_null path"
    and q: "resolve w path = Inr q" "node_at w q = Some (File c)"
    by (auto simp: isfile_def lookup_def split: sum.splits option.splits node.splits)
  from q(1) have ne: "path \<noteq> []"
    by (auto simp: resolve_def)
  \<comment> \<open>the path does not end in a slash\<close>
  have tail: "snd (posix_split path) \<noteq> []"
  proof
    assume e: "snd (posix_split path) = []"
    show False
    proof (cases "dirname path = []")
      case True
      obtain h t where s: "path = h @ t" and t: "CHR ''/'' \<notin> set t"
        and h: "h = [] \<or> last h = CHR ''/''"
        by (rule posix_split_parts)
      from e True have "h @ t = []"
        unfolding s dirname_def posix_split_append [OF t h]
        by (auto split: if_splits simp: dropWhile_eq_Nil_conv)
      with s ne show False
        by simp
    next
      case False
      from resolve_split [OF False, of w] q(1) obtain p where
        "walk w p [snd (posix_split path)] = Inr q"
        by (auto split: sum.splits)
      with e have "node_at w q = Some Dir"
        by (auto split: option.splits node.splits simp: step_empty)
      with q(2) show False
        by simp
    qed
  qed
  then have last: "last path \<noteq> CHR ''/''"
    by (rule posix_split_tail_nonempty)
  \<comment> \<open>and lies in a directory\<close>
  have head: "dirname path = [] \<or> path_exists w (dirname path)"
  proof (cases "dirname path = []")
    case True
    then show ?thesis by simp
  next
    case False
    then have "resolve w path = (case resolve w (dirname path) of Inl e \<Rightarrow> Inl e
        | Inr p \<Rightarrow> walk w p [snd (posix_split path)])"
      by (rule resolve_split)
    with q(1) obtain p where "resolve w (dirname path) = Inr p" "node_at w p = Some Dir"
      by (auto split: sum.splits option.splits node.splits)
    moreover from nul have "\<not> embedded_null (dirname path)"
      by (auto dest: embedded_null_dirname)
    ultimately show ?thesis
      by (simp add: path_exists_def lookup_def)
  qed
  have "makedirs path w = mkdir path w"
    using tail head by (auto simp: makedirs.simps [of path w] makedirs_split_def dirname_def)
  also have "\<dots> = (Inl (OSError EEXIST path), w)"
  proof (rule mkdir_existing [OF nul])
    show "resolve_entry w path = Inr q"
      using q(1) ne last by (simp add: resolve_entry_plain)
    show "node_at w q \<noteq> None"
      using q(2) by simp
  qed
  finally show ?thesis
    by (simp add: get_or_create_dir_def)
qed

text \<open>
  Claim C7 fails where the path exists as a regular file: \<open>os.makedirs\<close> raises \<open>OSError\<close>
  with \<open>EEXIST\<close>, \<open>_get_or_create_dir\<close> takes that for "the directory is there" and returns
  the path. For every client whose write directory \<open>local\<close> is a regular file, and for
  every registry whose storage root \<open>storage/rocks-db\<close> is a regular file, the helper
  returns the path as if it were a directory, and the file is still a file.
\<close>

theorem get_or_create_dir_accepts_file:
  "(isfile w (posix_join (posix_join (get_clients_dir config_dir) name) ''local'') \<longrightarrow>
    get_or_create_write_dir config_dir name w
      = (Inr (posix_join (posix_join (get_clients_dir config_dir) name) ''local''), w))
   \<and> (isfile w (posix_join config_dir ROCKS_DB_DIR) \<longrightarrow>
    get_or_create_path_to_rocks_db config_dir w = (Inr (posix_join config_dir ROCKS_DB_DIR), w))"
  by (simp add: get_or_create_write_dir_def get_or_create_path_to_rocks_db_def
      get_or_create_dir_on_file)

theorem get_or_create_dir_accepts_file_witness:
  "get_or_create_write_dir ''/r'' ''c'' blocked_world = (Inr ''/r/clients/c/local'', blocked_world)
   \<and> fs blocked_world [''r'', ''clients'', ''c'', ''local'']
       = Some (File [Chars ''not a directory''])
   \<and> get_or_create_path_to_rocks_db ''/r'' blocked_world
       = (Inr ''/r/storage/rocks-db'', blocked_world)
   \<and> fs blocked_world [''r'', ''storage'', ''rocks-db''] = Some (File [Chars ''not a directory''])"
proof -
  have c: "isfile blocked_world (posix_join (posix_join (get_clients_dir ''/r'') ''c'') ''local'')"
    by code_simp
  have s: "isfile blocked_world (posix_join ''/r'' ROCKS_DB_DIR)"
    by code_simp
  have p: "posix_join (posix_join (get_clients_dir ''/r'') ''c'') ''local'' = ''/r/clients/c/local''"
    "posix_join ''/r'' ROCKS_DB_DIR = ''/r/storage/rocks-db''"
    by code_simp+
  have f: "fs blocked_world [''r'', ''clients'', ''c'', ''local'']
       = Some (File [Chars ''not a directory''])"
    "fs blocked_world [''r'', ''storage'', ''rocks-db''] = Some (File [Chars ''not a directory''])"
    by code_simp+
  have "get_or_create_write_dir ''/r'' ''c'' blocked_world
      = (Inr (posix_join (posix_join (get_clients_dir ''/r'') ''c'') ''local''), blocked_world)"
    using get_or_create_dir_accepts_file [of blocked_world "''/r''" "''c''"] c by blast
  moreover have "get_or_create_path_to_rocks_db ''/r'' blocked_world
      = (Inr (posix_join ''/r'' ROCKS_DB_DIR), blocked_world)"
    using get_or_create_dir_accepts_file [of blocked_world "''/r''" "''c''"] s by blast
  ultimately show ?thesis
    using f by (simp add: p)
qed

section \<open>Properties of mount, unmount and checkout\<close>

subsection \<open>Mounting a client\<close>

text \<open>
  What \<open>mount\<close> does once the mount point is validated: it makes directories that were
  not there, and then, if nothing has failed and the service is reachable, issues the one
  RPC call.
\<close>

lemma mount_after_verify:
  assumes info: "get_client_info config_dir name w = Inr info"
    and mp: "as_string (info_mount info) = Inr mount_point"
    and v: "verify_mount_point mount_point w = (Inr (), w1)"
  shows "\<exists>ps rpc.
      events (snd (mount config_dir d name w)) = events w1 @ map EvMkdir ps @ rpc
      \<and> (\<forall>p \<in> set ps. node_at w1 p = None)
      \<and> (rpc = [] \<or> rpc = [EvRpc (CallMount \<lparr>mountPoint = mount_point,
                                                edenClientPath = info_client_dir info\<rparr>)])
      \<and> (fst (mount config_dir d name w) = Inr () \<longrightarrow> rpc \<noteq> [])
      \<and> (isdir w1 mount_point \<longrightarrow> isdir (snd (mount config_dir d name w)) mount_point)"
proof -
  let ?call = "EvRpc (CallMount \<lparr>mountPoint = mount_point,
                                edenClientPath = info_client_dir info\<rparr>)"
  obtain r2 w2 where l: "get_or_create_write_dir config_dir name w1 = (r2, w2)"
    by (cases "get_or_create_write_dir config_dir name w1")
  have "grows w1 (snd (get_or_create_write_dir config_dir name w1))"
    by (simp add: get_or_create_write_dir_def get_or_create_dir_grows)
  with l have g: "grows w1 w2"
    by simp
  then obtain ps where ps: "events w2 = events w1 @ map EvMkdir ps"
    "\<forall>p \<in> set ps. node_at w1 p = None"
    by (auto simp: grows_def)
  have dir: "isdir w1 mount_point \<Longrightarrow> isdir w2 mount_point"
    using g by (rule grows_isdir)
  show ?thesis
  proof (cases "\<exists>local_dir. r2 = Inr local_dir \<and> reachable d")
    case False
    then have "mount config_dir d name w = (Inl EdenNotRunningError, w2)
        \<or> (\<exists>e. mount config_dir d name w = (Inl e, w2))"
      using info mp v l by (cases r2) (auto simp: mount_def get_thrift_client_def)
    then have "snd (mount config_dir d name w) = w2" and "fst (mount config_dir d name w) \<noteq> Inr ()"
      by auto
    with ps dir have "events (snd (mount config_dir d name w)) = events w1 @ map EvMkdir ps @ []
      \<and> (\<forall>p \<in> set ps. node_at w1 p = None)
      \<and> (fst (mount config_dir d name w) = Inr () \<longrightarrow> [] \<noteq> ([] :: event list))
      \<and> (isdir w1 mount_point \<longrightarrow> isdir (snd (mount config_dir d name w)) mount_point)"
      by simp
    then show ?thesis
      by blast
  next
    case True
    then have "snd (mount config_dir d name w) = log_event ?call w2"
      using info mp v l
      by (auto simp: mount_def get_thrift_client_def Let_def split: reply.splits)
    with ps dir have "events (snd (mount config_dir d name w)) = events w1 @ map EvMkdir ps @ [?call]
      \<and> (\<forall>p \<in> set ps. node_at w1 p = None)
      \<and> (fst (mount config_dir d name w) = Inr () \<longrightarrow> [?call] \<noteq> [])
      \<and> (isdir w1 mount_point \<longrightarrow> isdir (snd (mount config_dir d name w)) mount_point)"
      by simp
    then show ?thesis
      by blast
  qed
qed

text \<open>
  Claim C6, as amended. \<open>mount\<close> reads the client's record and validates its mount point
  first. There are five cases. Where the mount point is a directory, the call does not
  make it again, and it is a directory afterwards. Where nothing exists at the mount
  point, its path holds no NUL character and \<open>os.path.dirname\<close> gives a directory for it,
  the first thing the call does is to make the mount point directory: the RPC request, if
  the call gets that far, comes later in the trace. Where neither the mount point nor the
  path \<open>os.path.dirname\<close> gives is a directory, the call raises the mount-point error and
  leaves the world as it found it. Where the mount point is a regular file, or its path
  holds a NUL character, while \<open>os.path.dirname\<close> gives a directory, the call raises the
  error of \<open>os.mkdir\<close> and leaves the world as it found it. In every case the call does
  nothing but make directories and, last, issue the mount request, which it has done when
  it returns without an exception: in the last three cases no RPC request is issued.
\<close>

theorem mount_validates_mount_point:
  assumes info: "get_client_info config_dir name w = Inr info"
    and mp: "as_string (info_mount info) = Inr mount_point"
  shows "(isdir w mount_point \<longrightarrow>
            (\<exists>q es. resolve w mount_point = Inr q
                  \<and> events (snd (mount config_dir d name w)) = events w @ es
                  \<and> EvMkdir q \<notin> set es)
            \<and> isdir (snd (mount config_dir d name w)) mount_point)
       \<and> (\<not> path_exists w mount_point \<and> \<not> embedded_null mount_point
            \<and> isdir w (dirname mount_point) \<longrightarrow>
            (\<exists>q es. resolve w mount_point = Inr q \<and> node_at w q = None
                  \<and> events (snd (mount config_dir d name w)) = events w @ EvMkdir q # es)
            \<and> isdir (snd (mount config_dir d name w)) mount_point)
       \<and> (\<not> isdir w mount_point \<and> \<not> isdir w (dirname mount_point) \<longrightarrow>
            mount config_dir d name w
            = (Inl (Exception (mount_point_message (dirname mount_point) mount_point)), w))
       \<and> (isfile w mount_point \<and> isdir w (dirname mount_point) \<longrightarrow>
            mount config_dir d name w = (Inl (OSError EEXIST mount_point), w))
       \<and> (embedded_null mount_point \<and> isdir w (dirname mount_point) \<longrightarrow>
            mount config_dir d name w = (Inl ValueError, w))
       \<and> (\<exists>ps rpc. events (snd (mount config_dir d name w)) = events w @ map EvMkdir ps @ rpc
            \<and> (rpc = [] \<or> rpc = [EvRpc (CallMount \<lparr>mountPoint = mount_point,
                                     edenClientPath = info_client_dir info\<rparr>)])
            \<and> (fst (mount config_dir d name w) = Inr () \<longrightarrow> rpc \<noteq> []))"
proof (intro conjI impI)
  assume d: "isdir w mount_point"
  then have v: "verify_mount_point mount_point w = (Inr (), w)"
    by (rule verify_mount_point_existing)
  from mount_after_verify [OF info mp v, where d = d] obtain ps rpc where
    e: "events (snd (mount config_dir d name w)) = events w @ map EvMkdir ps @ rpc"
    and new: "\<forall>p \<in> set ps. node_at w p = None"
    and rpc: "rpc = [] \<or> rpc = [EvRpc (CallMount \<lparr>mountPoint = mount_point,
                                                    edenClientPath = info_client_dir info\<rparr>)]"
    and issued: "fst (mount config_dir d name w) = Inr () \<longrightarrow> rpc \<noteq> []"
    and still: "isdir w mount_point \<longrightarrow> isdir (snd (mount config_dir d name w)) mount_point"
    by (elim exE conjE)
  from d obtain q where q: "resolve w mount_point = Inr q" "node_at w q = Some Dir"
    by (rule isdir_resolves)
  with new have "q \<notin> set ps"
    by auto
  with rpc have "EvMkdir q \<notin> set (map EvMkdir ps @ rpc)"
    by auto
  with e q(1) show "\<exists>q es. resolve w mount_point = Inr q
                  \<and> events (snd (mount config_dir d name w)) = events w @ es
                  \<and> EvMkdir q \<notin> set es"
    by blast
  from still d show "isdir (snd (mount config_dir d name w)) mount_point"
    by simp
next
  assume a: "\<not> path_exists w mount_point \<and> \<not> embedded_null mount_point
            \<and> isdir w (dirname mount_point)"
  then obtain q where q: "resolve w mount_point = Inr q" "node_at w q = None"
    and v: "verify_mount_point mount_point w
         = (Inr (), w\<lparr>fs := (fs w)(q \<mapsto> Dir), events := events w @ [EvMkdir q]\<rparr>)"
    by (auto elim: verify_mount_point_creates)
  let ?w1 = "w\<lparr>fs := (fs w)(q \<mapsto> Dir), events := events w @ [EvMkdir q]\<rparr>"
  from mount_after_verify [OF info mp v, where d = d] obtain ps rpc where
    e: "events (snd (mount config_dir d name w)) = events ?w1 @ map EvMkdir ps @ rpc"
    and still: "isdir ?w1 mount_point \<longrightarrow> isdir (snd (mount config_dir d name w)) mount_point"
    by (elim exE conjE)
  from e have "events (snd (mount config_dir d name w))
      = events w @ EvMkdir q # (map EvMkdir ps @ rpc)"
    by simp
  with q show "\<exists>q es. resolve w mount_point = Inr q \<and> node_at w q = None
                  \<and> events (snd (mount config_dir d name w)) = events w @ EvMkdir q # es"
    by blast
  from q(2) have qne: "q \<noteq> []"
    by (rule node_at_nonroot)
  then have "resolve ?w1 mount_point = Inr q"
    using q(1) by (intro resolve_fs_update) simp_all
  moreover have "node_at ?w1 q = Some Dir"
    using qne by (simp add: node_at_def)
  ultimately have "isdir ?w1 mount_point"
    using a by (intro isdir_resolved [of _ _ q]) simp_all
  with still show "isdir (snd (mount config_dir d name w)) mount_point"
    by simp
next
  assume "\<not> isdir w mount_point \<and> \<not> isdir w (dirname mount_point)"
  then show "mount config_dir d name w
            = (Inl (Exception (mount_point_message (dirname mount_point) mount_point)), w)"
    using info mp by (simp add: mount_def verify_mount_point_no_parent)
next
  assume "isfile w mount_point \<and> isdir w (dirname mount_point)"
  then show "mount config_dir d name w = (Inl (OSError EEXIST mount_point), w)"
    using info mp by (simp add: mount_def verify_mount_point_on_file)
next
  assume "embedded_null mount_point \<and> isdir w (dirname mount_point)"
  then show "mount config_dir d name w = (Inl ValueError, w)"
    using info mp by (simp add: mount_def verify_mount_point_null)
next
  let ?call = "EvRpc (CallMount \<lparr>mountPoint = mount_point,
                                edenClientPath = info_client_dir info\<rparr>)"
  obtain r1 w1 where v: "verify_mount_point mount_point w = (r1, w1)"
    by (cases "verify_mount_point mount_point w")
  have "grows w (snd (verify_mount_point mount_point w))"
    by (rule verify_mount_point_grows)
  with v have g: "grows w w1"
    by simp
  then obtain qs where qs: "events w1 = events w @ map EvMkdir qs"
    by (auto simp: grows_def)
  show "\<exists>ps rpc. events (snd (mount config_dir d name w)) = events w @ map EvMkdir ps @ rpc
            \<and> (rpc = [] \<or> rpc = [?call])
            \<and> (fst (mount config_dir d name w) = Inr () \<longrightarrow> rpc \<noteq> [])"
  proof (cases r1)
    case (Inl e)
    with v info mp have "mount config_dir d name w = (Inl e, w1)"
      by (simp add: mount_def)
    with qs have "events (snd (mount config_dir d name w)) = events w @ map EvMkdir qs @ []
        \<and> fst (mount config_dir d name w) \<noteq> Inr ()"
      by simp
    then show ?thesis by blast
  next
    case (Inr u)
    with v have v': "verify_mount_point mount_point w = (Inr (), w1)"
      by simp
    from mount_after_verify [OF info mp v', where d = d] obtain ps rpc where
      e: "events (snd (mount config_dir d name w)) = events w1 @ map EvMkdir ps @ rpc"
      and new: "\<forall>p \<in> set ps. node_at w1 p = None"
      and rpc: "rpc = [] \<or> rpc = [?call]"
      and issued: "fst (mount config_dir d name w) = Inr () \<longrightarrow> rpc \<noteq> []"
      and still: "isdir w1 mount_point \<longrightarrow> isdir (snd (mount config_dir d name w)) mount_point"
      by (elim exE conjE)
    from e qs have "events (snd (mount config_dir d name w))
        = events w @ map EvMkdir (qs @ ps) @ rpc"
      by simp
    with rpc issued show ?thesis by blast
  qed
qed

text \<open>
  The client \<open>c\<close> with its mount point \<open>/m/x\<close>: a directory; removed; removed together with
  \<open>/m\<close>; a regular file; and the mount point \<open>/m/\<close> followed by a NUL character.
\<close>

theorem mount_validates_mount_point_witness:
  "isdir (snd (mount ''/r'' accepting_daemon ''c'' client_world)) ''/m/x''
   \<and> (\<exists>es. events (snd (mount ''/r'' accepting_daemon ''c'' unmounted_world))
              = events unmounted_world @ EvMkdir [''m'', ''x''] # es)
   \<and> isdir (snd (mount ''/r'' accepting_daemon ''c'' unmounted_world)) ''/m/x''
   \<and> mount ''/r'' accepting_daemon ''c'' orphan_world
       = (Inl (Exception (mount_point_message ''/m'' ''/m/x'')), orphan_world)
   \<and> mount ''/r'' accepting_daemon ''c'' occupied_world
       = (Inl (OSError EEXIST ''/m/x''), occupied_world)
   \<and> mount ''/r'' accepting_daemon ''c'' (recorded_world (''/m/'' @ [CHR 0x00]))
       = (Inl ValueError, recorded_world (''/m/'' @ [CHR 0x00]))"
proof -
  let ?info = "\<lparr>info_bind_mounts = JObj [], info_mount = JStr ''/m/x'', info_snapshot = ''abc'',
                info_client_dir = ''/r/clients/c''\<rparr>"
  let ?null = "\<lparr>info_bind_mounts = JObj [], info_mount = JStr (''/m/'' @ [CHR 0x00]),
                info_snapshot = ''abc'', info_client_dir = ''/r/clients/c''\<rparr>"
  have mp: "as_string (info_mount ?info) = Inr ''/m/x''"
    by simp
  have mp0: "as_string (info_mount ?null) = Inr (''/m/'' @ [CHR 0x00])"
    by simp
  have i1: "get_client_info ''/r'' ''c'' client_world = Inr ?info"
    by code_simp
  have i2: "get_client_info ''/r'' ''c'' unmounted_world = Inr ?info"
    by code_simp
  have i3: "get_client_info ''/r'' ''c'' orphan_world = Inr ?info"
    by code_simp
  have i4: "get_client_info ''/r'' ''c'' occupied_world = Inr ?info"
    by code_simp
  have i5: "get_client_info ''/r'' ''c'' (recorded_world (''/m/'' @ [CHR 0x00])) = Inr ?null"
    by code_simp
  have a1: "isdir client_world ''/m/x''"
    by code_simp
  have a2: "\<not> path_exists unmounted_world ''/m/x'' \<and> \<not> embedded_null ''/m/x''
      \<and> isdir unmounted_world (dirname ''/m/x'')"
    by code_simp
  have r2: "resolve unmounted_world ''/m/x'' = Inr [''m'', ''x'']"
    by code_simp
  have a3: "\<not> isdir orphan_world ''/m/x'' \<and> \<not> isdir orphan_world (dirname ''/m/x'')"
    by code_simp
  have d3: "dirname ''/m/x'' = ''/m''"
    by code_simp
  have a4: "isfile occupied_world ''/m/x'' \<and> isdir occupied_world (dirname ''/m/x'')"
    by code_simp
  have a5: "embedded_null (''/m/'' @ [CHR 0x00])
      \<and> isdir (recorded_world (''/m/'' @ [CHR 0x00])) (dirname (''/m/'' @ [CHR 0x00]))"
    by code_simp
  have "isdir (snd (mount ''/r'' accepting_daemon ''c'' client_world)) ''/m/x''"
    using mount_validates_mount_point [OF i1 mp, where d = accepting_daemon] a1 by blast
  moreover have "(\<exists>q es. resolve unmounted_world ''/m/x'' = Inr q
          \<and> events (snd (mount ''/r'' accepting_daemon ''c'' unmounted_world))
              = events unmounted_world @ EvMkdir q # es)
      \<and> isdir (snd (mount ''/r'' accepting_daemon ''c'' unmounted_world)) ''/m/x''"
    using mount_validates_mount_point [OF i2 mp, where d = accepting_daemon] a2 by blast
  moreover have "mount ''/r'' accepting_daemon ''c'' orphan_world
       = (Inl (Exception (mount_point_message (dirname ''/m/x'') ''/m/x'')), orphan_world)"
    using mount_validates_mount_point [OF i3 mp, where d = accepting_daemon] a3 by blast
  moreover have "mount ''/r'' accepting_daemon ''c'' occupied_world
       = (Inl (OSError EEXIST ''/m/x''), occupied_world)"
    using mount_validates_mount_point [OF i4 mp, where d = accepting_daemon] a4 by blast
  moreover have "mount ''/r'' accepting_daemon ''c'' (recorded_world (''/m/'' @ [CHR 0x00]))
       = (Inl ValueError, recorded_world (''/m/'' @ [CHR 0x00]))"
    using mount_validates_mount_point [OF i5 mp0, where d = accepting_daemon] a5 by blast
  ultimately show ?thesis
    by (auto simp: r2 d3)
qed

text \<open>
  The claim as stated fails in three ways. The mount point \<open>/m/y/\<close> does not exist and its
  parent \<open>/m\<close> does, but \<open>os.path.dirname\<close> gives \<open>/m/y\<close>: the call raises the mount-point
  error and makes no directory. A mount point that is a regular file, in a directory, is
  neither a directory nor absent: the call raises the \<open>OSError\<close> of \<open>os.mkdir\<close>, not the
  mount-point error. A mount point with a NUL character does not exist, in a parent that
  does: the call raises \<open>ValueError\<close> and makes no directory.
\<close>

theorem mount_validates_mount_point_counterexample:
  "\<not> path_exists (recorded_world ''/m/y/'') ''/m/y/'' \<and> isdir (recorded_world ''/m/y/'') ''/m''
   \<and> fst (mount ''/r'' accepting_daemon ''c'' (recorded_world ''/m/y/''))
     = Inl (Exception (mount_point_message ''/m/y'' ''/m/y/''))
   \<and> fs (snd (mount ''/r'' accepting_daemon ''c'' (recorded_world ''/m/y/''))) [''m'', ''y'']
     = None
   \<and> isfile occupied_world ''/m/x'' \<and> isdir occupied_world ''/m''
   \<and> fst (mount ''/r'' accepting_daemon ''c'' occupied_world) = Inl (OSError EEXIST ''/m/x'')
   \<and> \<not> path_exists (recorded_world (''/m/'' @ [CHR 0x00])) (''/m/'' @ [CHR 0x00])
   \<and> fst (mount ''/r'' accepting_daemon ''c'' (recorded_world (''/m/'' @ [CHR 0x00])))
     = Inl ValueError"
  by code_simp

subsection \<open>Errors of the service\<close>

lemma checkout_reboxes_EdenError:
  assumes "get_client_info config_dir name w = Inr info"
    and "as_string (info_mount info) = Inr mount_point"
    and "reachable d"
    and "on_checkOutRevision d mount_point snapshot_id = RaisesEdenError message"
  shows "fst (checkout config_dir d name snapshot_id w) = Inl (Exception message)"
  using assms by (simp add: checkout_def get_thrift_client_def)

lemma mount_reboxes_EdenError:
  assumes "get_client_info config_dir name w = Inr info"
    and "as_string (info_mount info) = Inr mount_point"
    and "verify_mount_point mount_point w = (Inr (), w1)"
    and "get_or_create_write_dir config_dir name w1 = (Inr local_dir, w2)"
    and "reachable d"
    and "on_mount d \<lparr>mountPoint = mount_point, edenClientPath = info_client_dir info\<rparr>
           = RaisesEdenError message"
  shows "fst (mount config_dir d name w) = Inl (Exception message)"
  using assms by (simp add: mount_def get_thrift_client_def)

text \<open>
  Claim C2 fails for \<open>unmount\<close>: \<open>mount\<close> and \<open>checkout\<close> catch the service's
  \<open>EdenError\<close> and raise an \<open>Exception\<close> with its message (the two lemmas above), but
  \<open>unmount\<close> has no handler, and the \<open>EdenError\<close> itself reaches the caller.
\<close>

theorem unmount_lets_EdenError_through:
  assumes "get_client_info config_dir name w = Inr info"
    and "as_string (info_mount info) = Inr mount_point"
    and "reachable d"
    and "on_unmount d mount_point = RaisesEdenError message"
  shows "fst (unmount config_dir d name w) = Inl (EdenError message)"
  using assms by (simp add: unmount_def get_thrift_client_def)

theorem unmount_lets_EdenError_through_witness:
  "fst (unmount ''/r'' rejecting_daemon ''c'' client_world) = Inl (EdenError ''no such mount'')"
proof -
  have info: "get_client_info ''/r'' ''c'' client_world
      = Inr \<lparr>info_bind_mounts = JObj [], info_mount = JStr ''/m/x'', info_snapshot = ''abc'',
              info_client_dir = ''/r/clients/c''\<rparr>"
    by code_simp
  have r: "reachable rejecting_daemon"
    by (simp add: rejecting_daemon_def)
  have u: "on_unmount rejecting_daemon ''/m/x'' = RaisesEdenError ''no such mount''"
    by (simp add: rejecting_daemon_def)
  show ?thesis
    using unmount_lets_EdenError_through [OF info _ r u] by simp
qed

subsection \<open>Checkout and the registry\<close>

text \<open>
  Claim C8. \<open>checkout\<close> writes nothing: whatever the client, the snapshot id and the
  answer of the service, and whether the method returns or raises, the file system and
  the working directory after the call are those before it, so every client's
  \<open>get_client_info\<close> (its config document and its \<open>SNAPSHOT\<close> file) reads as before.
\<close>

theorem checkout_leaves_registry:
  "fs (snd (checkout config_dir d name snapshot_id w)) = fs w
   \<and> cwd (snd (checkout config_dir d name snapshot_id w)) = cwd w
   \<and> get_client_info config_dir other (snd (checkout config_dir d name snapshot_id w))
     = get_client_info config_dir other w"
proof -
  have "\<exists>es. snd (checkout config_dir d name snapshot_id w) = w\<lparr>events := es\<rparr>"
    by (auto simp: checkout_def log_event_def split: sum.splits reply.splits
        intro: exI [of _ "events w"])
  then obtain es where "snd (checkout config_dir d name snapshot_id w) = w\<lparr>events := es\<rparr>"
    by blast
  then show ?thesis
    by simp
qed

section \<open>Properties of the daemon supervisor\<close>

subsection \<open>The environment of the daemon\<close>

lemma copy_environment_dropped:
  "\<not> startswith n ''TESTPILOT_'' \<Longrightarrow> n \<notin> set preserve \<Longrightarrow>
   copy_environment items e n = e n"
  by (induction items arbitrary: e) auto

lemma copy_environment_absent:
  "n \<notin> fst ` set items \<Longrightarrow> copy_environment items e n = e n"
  by (induction items arbitrary: e) auto

lemma copy_environment_copied:
  "distinct (map fst items) \<Longrightarrow> (n, v) \<in> set items \<Longrightarrow>
   startswith n ''TESTPILOT_'' \<or> n \<in> set preserve \<Longrightarrow>
   copy_environment items e n = Some v"
proof (induction items arbitrary: e)
  case Nil
  then show ?case by simp
next
  case (Cons item items)
  obtain n' v' where item: "item = (n', v')"
    by (cases item)
  show ?case
  proof (cases "n' = n")
    case True
    with Cons.prems item have "v' = v" and "n \<notin> fst ` set items"
      by (auto simp: image_iff)
    with Cons.prems(3) item True show ?thesis
      by (auto simp: copy_environment_absent)
  next
    case False
    with Cons.prems item have "(n, v) \<in> set items" and "distinct (map fst items)"
      by auto
    with Cons.IH Cons.prems(3) item show ?thesis
      by simp
  qed
qed

lemma copy_environment_origin:
  "copy_environment items e n = Some v \<Longrightarrow>
   e n = Some v \<or> ((n, v) \<in> set items \<and> (startswith n ''TESTPILOT_'' \<or> n \<in> set preserve))"
proof (induction items arbitrary: e)
  case Nil
  then show ?case by simp
next
  case (Cons item items)
  obtain n' v' where item: "item = (n', v')"
    by (cases item)
  from Cons.prems item Cons.IH [of "if startswith n' ''TESTPILOT_'' then e(n' \<mapsto> v')
        else if n' \<in> set preserve then e(n' \<mapsto> v') else e"]
  show ?case
    by (auto split: if_splits)
qed

lemma PATH_not_copied: "\<not> startswith ''PATH'' ''TESTPILOT_''" "''PATH'' \<notin> set preserve"
  by (simp_all add: startswith_def preserve_def)

text \<open>
  Claim C3. \<open>os.environ\<close> is a dictionary: its items have distinct names. Whatever it
  holds, the environment built for the daemon has \<open>PATH\<close> set to the three standard
  directories; every ambient variable named in the list \<open>preserve\<close> (\<open>USER\<close>, \<open>LOGNAME\<close>,
  \<open>HOME\<close>, \<open>EMAIL\<close>, \<open>NAME\<close>, \<open>SSH_AUTH_SOCK\<close>, \<open>SSH_AGENT_PID\<close>) is there with its ambient
  value; so is every ambient variable whose name starts with \<open>TESTPILOT_\<close>; and any other
  variable of the result than \<open>PATH\<close> is an ambient variable of one of these two kinds.
\<close>

theorem build_eden_environment_sanitized:
  assumes "distinct (map fst ambient)"
  shows "build_eden_environment ambient ''PATH'' = Some ''/usr/local/bin:/bin:/usr/bin''
       \<and> (\<forall>(n, v) \<in> set ambient.
            n \<in> set preserve \<longrightarrow> build_eden_environment ambient n = Some v)
       \<and> (\<forall>(n, v) \<in> set ambient.
            startswith n ''TESTPILOT_'' \<longrightarrow> build_eden_environment ambient n = Some v)
       \<and> (\<forall>n v. build_eden_environment ambient n = Some v \<longrightarrow>
            n = ''PATH''
            \<or> ((n, v) \<in> set ambient \<and> (n \<in> set preserve \<or> startswith n ''TESTPILOT_'')))"
proof (intro conjI)
  show "build_eden_environment ambient ''PATH'' = Some ''/usr/local/bin:/bin:/usr/bin''"
    by (simp add: build_eden_environment_def copy_environment_dropped PATH_not_copied
        path_dirs_def)
  show "\<forall>(n, v) \<in> set ambient.
          n \<in> set preserve \<longrightarrow> build_eden_environment ambient n = Some v"
    using assms by (auto simp: build_eden_environment_def copy_environment_copied)
  show "\<forall>(n, v) \<in> set ambient.
          startswith n ''TESTPILOT_'' \<longrightarrow> build_eden_environment ambient n = Some v"
    using assms by (auto simp: build_eden_environment_def copy_environment_copied)
  show "\<forall>n v. build_eden_environment ambient n = Some v \<longrightarrow>
          n = ''PATH''
          \<or> ((n, v) \<in> set ambient \<and> (n \<in> set preserve \<or> startswith n ''TESTPILOT_''))"
  proof (intro allI impI)
    fix n v
    assume "build_eden_environment ambient n = Some v"
    then have "[''PATH'' \<mapsto> join_with '':'' path_dirs] n = Some v
        \<or> ((n, v) \<in> set ambient \<and> (startswith n ''TESTPILOT_'' \<or> n \<in> set preserve))"
      unfolding build_eden_environment_def by (rule copy_environment_origin)
    then show "n = ''PATH''
        \<or> ((n, v) \<in> set ambient \<and> (n \<in> set preserve \<or> startswith n ''TESTPILOT_''))"
      by (auto split: if_splits)
  qed
qed

theorem build_eden_environment_sanitized_witness:
  "distinct (map fst demo_environ)
   \<and> build_eden_environment demo_environ ''PATH'' = Some ''/usr/local/bin:/bin:/usr/bin''
   \<and> build_eden_environment demo_environ ''HOME'' = Some ''/h''
   \<and> build_eden_environment demo_environ ''TESTPILOT_FOO'' = Some ''y''
   \<and> build_eden_environment demo_environ ''RANDOM_VAR'' = None"
proof -
  have d: "distinct (map fst demo_environ)"
    by (simp add: demo_environ_def)
  have "build_eden_environment demo_environ ''RANDOM_VAR'' = None"
  proof (cases "build_eden_environment demo_environ ''RANDOM_VAR''")
    case None
    then show ?thesis .
  next
    case (Some v)
    have "build_eden_environment demo_environ ''RANDOM_VAR'' = Some v \<longrightarrow>
          ''RANDOM_VAR'' = ''PATH''
          \<or> ((''RANDOM_VAR'', v) \<in> set demo_environ
              \<and> (''RANDOM_VAR'' \<in> set preserve \<or> startswith ''RANDOM_VAR'' ''TESTPILOT_''))"
      using build_eden_environment_sanitized [OF d] by blast
    with Some show ?thesis
      by (simp add: preserve_def startswith_def)
  qed
  with d build_eden_environment_sanitized [OF d] show ?thesis
    by (simp add: demo_environ_def preserve_def startswith_def)
qed

subsection \<open>Spawning while the daemon runs\<close>

lemma is_healthy_check_health: "is_healthy (fst (check_health d w)) = probe_healthy d"
  by (auto simp: check_health_def get_thrift_client_def is_healthy_def probe_healthy_def
      talking_error_def split: reply.splits)

lemma check_health_healthy:
  assumes "probe_healthy d"
  obtains pid where "on_getPid d = Returns pid"
    and "check_health d w =
      (\<lparr>hs_status = ALIVE, hs_pid = Some pid,
        hs_detail = ''edenfs running (pid '' @ str_int pid @ ''); status is ALIVE''\<rparr>,
       w\<lparr>events := events w @ [EvRpc CallGetPid, EvRpc CallGetStatus]\<rparr>)"
  using assms
  by (auto simp: check_health_def get_thrift_client_def probe_healthy_def log_event_def
      split: reply.splits)

lemma check_health_world:
  "\<exists>es. snd (check_health d w) = w\<lparr>events := events w @ es\<rparr>"
proof -
  have "snd (check_health d w) = w\<lparr>events := events w @ []\<rparr>
      \<or> snd (check_health d w) = w\<lparr>events := events w @ [EvRpc CallGetPid]\<rparr>
      \<or> snd (check_health d w) = w\<lparr>events := events w @ [EvRpc CallGetPid, EvRpc CallGetStatus]\<rparr>"
    by (simp add: check_health_def get_thrift_client_def log_event_def split: reply.splits)
  then show ?thesis by blast
qed

lemma clock_check_health [simp]: "clock (snd (check_health d w)) = clock w"
  using check_health_world [of d w] by auto

text \<open>
  Claim C5. When the first probe of \<open>spawn\<close> reports the service healthy, \<open>spawn\<close> raises
  \<open>EdenStartError\<close> with the message that names the process id the probe returned, and
  the world it leaves is the world it found with the two calls of the probe added to the
  trace: user id, \<open>os.stat\<close> and \<open>os.environ\<close> are not read, the file system is not
  touched, and no process is started or replaced.
\<close>

theorem spawn_already_running:
  assumes "is_healthy (fst (check_health (daemon_at (clock w)) w))"
  shows "\<exists>pid. on_getPid (daemon_at (clock w)) = Returns pid
           \<and> spawn config_dir h daemon_at proc_at interval daemon_binary extra_args gdb
               foreground w
             = (Raised (EdenStartError (''edenfs is already running (pid '' @ str_int pid @ '')'')),
                w\<lparr>events := events w @ [EvRpc CallGetPid, EvRpc CallGetStatus]\<rparr>)"
proof -
  from assms have "probe_healthy (daemon_at (clock w))"
    by (simp add: is_healthy_check_health)
  then obtain pid where pid: "on_getPid (daemon_at (clock w)) = Returns pid"
    and c: "check_health (daemon_at (clock w)) w =
      (\<lparr>hs_status = ALIVE, hs_pid = Some pid,
        hs_detail = ''edenfs running (pid '' @ str_int pid @ ''); status is ALIVE''\<rparr>,
       w\<lparr>events := events w @ [EvRpc CallGetPid, EvRpc CallGetStatus]\<rparr>)"
    by (rule check_health_healthy)
  have "spawn config_dir h daemon_at proc_at interval daemon_binary extra_args gdb foreground w
      = (Raised (EdenStartError (''edenfs is already running (pid '' @ str_int pid @ '')'')),
         w\<lparr>events := events w @ [EvRpc CallGetPid, EvRpc CallGetStatus]\<rparr>)"
    by (simp add: spawn_def c is_healthy_def already_running_def)
  with pid show ?thesis by blast
qed

theorem spawn_already_running_witness:
  "is_healthy (fst (check_health rejecting_daemon demo_world))
   \<and> spawn ''/r'' demo_host (\<lambda>t. rejecting_daemon) (\<lambda>t. None) 200 ''/usr/bin/edenfs'' None
       False False demo_world
     = (Raised (EdenStartError ''edenfs is already running (pid 4711)''),
        demo_world\<lparr>events := [EvRpc CallGetPid, EvRpc CallGetStatus]\<rparr>)"
proof -
  have h: "is_healthy (fst (check_health ((\<lambda>t. rejecting_daemon) (clock demo_world)) demo_world))"
    by (simp add: is_healthy_check_health probe_healthy_def rejecting_daemon_def)
  have s: "str_int 4711 = ''4711''"
    by (simp add: str_int_def str_nat.simps digit_char_def)
  have e: "events demo_world = []"
    by (simp add: demo_world_def)
  from spawn_already_running [where daemon_at = "\<lambda>t. rejecting_daemon" and w = demo_world
      and config_dir = "''/r''" and h = demo_host and proc_at = "\<lambda>t. None" and interval = 200
      and daemon_binary = "''/usr/bin/edenfs''" and extra_args = None and gdb = False
      and foreground = False, OF h]
  obtain pid where pid: "on_getPid rejecting_daemon = Returns pid"
    and run: "spawn ''/r'' demo_host (\<lambda>t. rejecting_daemon) (\<lambda>t. None) 200 ''/usr/bin/edenfs''
        None False False demo_world
      = (Raised (EdenStartError (''edenfs is already running (pid '' @ str_int pid @ '')'')),
         demo_world\<lparr>events := events demo_world @ [EvRpc CallGetPid, EvRpc CallGetStatus]\<rparr>)"
    by (elim exE conjE)
  from pid have "pid = 4711"
    by (simp add: rejecting_daemon_def)
  then have "spawn ''/r'' demo_host (\<lambda>t. rejecting_daemon) (\<lambda>t. None) 200 ''/usr/bin/edenfs''
        None False False demo_world
      = (Raised (EdenStartError ''edenfs is already running (pid 4711)''),
         demo_world\<lparr>events := [EvRpc CallGetPid, EvRpc CallGetStatus]\<rparr>)"
    unfolding run by (simp add: s e)
  with h show ?thesis
    by (intro conjI)
qed

subsection \<open>Waiting for the daemon\<close>

lemma wait_check_exited:
  assumes "\<not> probe_healthy (daemon_at (clock w))" and "proc_at (clock w) = Some status"
  shows "fst (wait_check daemon_at proc_at w) = Inl (EdenStartError (exited_message status))"
    and "clock (snd (wait_check daemon_at proc_at w)) = clock w"
proof -
  obtain hi w1 where c: "check_health (daemon_at (clock w)) w = (hi, w1)"
    by (cases "check_health (daemon_at (clock w)) w")
  have "\<not> is_healthy hi"
    using assms(1) is_healthy_check_health [of "daemon_at (clock w)" w] c by simp
  moreover have "clock w1 = clock w"
    using clock_check_health [of "daemon_at (clock w)" w] c by simp
  ultimately show "fst (wait_check daemon_at proc_at w) = Inl (EdenStartError (exited_message status))"
    and "clock (snd (wait_check daemon_at proc_at w)) = clock w"
    using assms(2) c by (simp_all add: wait_check_def log_event_def)
qed

lemma wait_check_running:
  assumes "\<not> probe_healthy (daemon_at (clock w))" and "proc_at (clock w) = None"
  shows "fst (wait_check daemon_at proc_at w) = Inr None"
    and "clock (snd (wait_check daemon_at proc_at w)) = clock w"
proof -
  obtain hi w1 where c: "check_health (daemon_at (clock w)) w = (hi, w1)"
    by (cases "check_health (daemon_at (clock w)) w")
  have "\<not> is_healthy hi"
    using assms(1) is_healthy_check_health [of "daemon_at (clock w)" w] c by simp
  moreover have "clock w1 = clock w"
    using clock_check_health [of "daemon_at (clock w)" w] c by simp
  ultimately show "fst (wait_check daemon_at proc_at w) = Inr None"
    and "clock (snd (wait_check daemon_at proc_at w)) = clock w"
    using assms(2) c by (simp_all add: wait_check_def log_event_def)
qed

lemma poll_loop_raises:
  "fst (f w) = Inl e \<Longrightarrow> poll_loop f left interval ex w = (Inl e, snd (f w))"
  by (cases "f w") (simp add: poll_loop.simps [of f left interval ex w])

lemma poll_loop_again:
  "fst (f w) = Inr None \<Longrightarrow> 0 < interval \<Longrightarrow> interval < left \<Longrightarrow>
   poll_loop f left interval ex w
     = poll_loop f (left - interval) interval ex (sleep interval (snd (f w)))"
  by (cases "f w") (simp add: poll_loop.simps [of f left interval ex w])

lemma poll_loop_deadline:
  "fst (f w) = Inr None \<Longrightarrow> interval = 0 \<or> left \<le> interval \<Longrightarrow>
   poll_loop f left interval ex w = (Inl ex, sleep left (snd (f w)))"
  by (cases "f w") (auto simp: poll_loop.simps [of f left interval ex w])

lemma clock_sleep [simp]: "clock (sleep ms w) = clock w + ms"
  by (simp add: sleep_def)

text \<open>The poll that sees the process gone ends the wait, after \<open>k\<close> sleeps.\<close>

lemma poll_loop_exit_seen:
  assumes "0 < interval"
    and "k * interval < left"
    and "\<forall>j\<le>k. \<not> probe_healthy (daemon_at (clock w + j * interval))"
    and "\<forall>j<k. proc_at (clock w + j * interval) = None"
    and "proc_at (clock w + k * interval) = Some status"
  shows "fst (poll_loop (wait_check daemon_at proc_at) left interval ex w)
           = Inl (EdenStartError (exited_message status))
       \<and> clock (snd (poll_loop (wait_check daemon_at proc_at) left interval ex w))
           = clock w + k * interval"
  using assms
proof (induction k arbitrary: w left)
  case 0
  then have "\<not> probe_healthy (daemon_at (clock w))" and "proc_at (clock w) = Some status"
    by simp_all
  then show ?case
    by (simp add: poll_loop_raises wait_check_exited)
next
  case (Suc k)
  let ?w1 = "sleep interval (snd (wait_check daemon_at proc_at w))"
  from Suc.prems have here: "\<not> probe_healthy (daemon_at (clock w))" "proc_at (clock w) = None"
    by (metis add.right_neutral le0 mult_zero_left, metis add.right_neutral mult_zero_left zero_less_Suc)
  have running: "fst (wait_check daemon_at proc_at w) = Inr None"
    by (rule wait_check_running(1) [where daemon_at = daemon_at and proc_at = proc_at and w = w,
          OF here])
  have clock0: "clock (snd (wait_check daemon_at proc_at w)) = clock w"
    by (rule wait_check_running(2) [where daemon_at = daemon_at and proc_at = proc_at
          and w = w, OF here])
  from Suc.prems have left: "interval < left" "k * interval < left - interval"
    by simp_all
  have shift: "clock ?w1 + j * interval = clock w + Suc j * interval" for j
    by (simp add: clock0)
  have "\<forall>j\<le>k. \<not> probe_healthy (daemon_at (clock ?w1 + j * interval))"
    using Suc.prems(3) unfolding shift by (meson Suc_le_mono)
  moreover have "\<forall>j<k. proc_at (clock ?w1 + j * interval) = None"
    using Suc.prems(4) unfolding shift by (meson Suc_less_eq)
  moreover have "proc_at (clock ?w1 + k * interval) = Some status"
    using Suc.prems(5) unfolding shift .
  ultimately have "fst (poll_loop (wait_check daemon_at proc_at) (left - interval) interval ex ?w1)
           = Inl (EdenStartError (exited_message status))
       \<and> clock (snd (poll_loop (wait_check daemon_at proc_at) (left - interval) interval ex ?w1))
           = clock ?w1 + k * interval"
    using Suc.IH [of "left - interval" ?w1] Suc.prems(1) left by blast
  then show ?case
    using running Suc.prems(1) left by (simp add: poll_loop_again clock0)
qed

text \<open>When no poll finds the service healthy or the process gone, the wait lasts the whole time.\<close>

lemma poll_loop_times_out:
  assumes "\<forall>t. \<not> probe_healthy (daemon_at t)" and "\<forall>t. proc_at t = None"
  shows "fst (poll_loop (wait_check daemon_at proc_at) left interval ex w) = Inl ex
       \<and> clock (snd (poll_loop (wait_check daemon_at proc_at) left interval ex w))
           = clock w + left"
proof (induction left arbitrary: w rule: less_induct)
  case (less left)
  have running: "fst (wait_check daemon_at proc_at w) = Inr None"
    and clock0: "clock (snd (wait_check daemon_at proc_at w)) = clock w"
    using assms by (simp_all add: wait_check_running)
  show ?case
  proof (cases "interval = 0 \<or> left \<le> interval")
    case True
    then show ?thesis
      using running clock0 by (simp add: poll_loop_deadline)
  next
    case False
    then have "0 < interval" "interval < left" "left - interval < left"
      by simp_all
    with less.IH [of "left - interval" "sleep interval (snd (wait_check daemon_at proc_at w))"]
    show ?thesis
      using running clock0 by (simp add: poll_loop_again)
  qed
qed

lemma exited_is_not_timeout: "EdenStartError (exited_message status) \<noteq> timeout_ex"
  by (simp add: exited_message_def timeout_ex_def)

text \<open>
  Until \<open>spawn\<close> waits, no time passes, and what \<open>spawn\<close> has written to the trace stays
  there.
\<close>

lemma clock_with_privilege [simp]: "clock (snd (with_privilege h daemon_binary cmd w)) = clock w"
  by (simp add: with_privilege_def split: option.splits prod.splits)

lemma clock_get_or_create_dir [simp]: "clock (snd (get_or_create_dir path w)) = clock w"
  using get_or_create_dir_grows [of w path] by (rule grows_clock)

lemma clock_append_file [simp]: "clock (snd (append_file s c w)) = clock w"
  by (simp add: append_file_def split: sum.splits option.splits node.splits)

lemma wait_check_events: "\<exists>es. events (snd (wait_check daemon_at proc_at w)) = events w @ es"
proof -
  obtain hi w1 where c: "check_health (daemon_at (clock w)) w = (hi, w1)"
    by (cases "check_health (daemon_at (clock w)) w")
  from check_health_world [of "daemon_at (clock w)" w] c obtain es where
    "events w1 = events w @ es"
    by auto
  then show ?thesis
    using c by (auto simp: wait_check_def split: option.splits)
qed

lemma poll_loop_events:
  assumes "\<And>w. \<exists>es. events (snd (f w)) = events w @ es"
  shows "\<exists>es. events (snd (poll_loop f left interval ex w)) = events w @ es"
proof (induction left arbitrary: w rule: less_induct)
  case (less left)
  obtain r w' where f: "f w = (r, w')"
    by (cases "f w")
  from assms [of w] f obtain es where es: "events w' = events w @ es"
    by auto
  show ?case
  proof (cases "r = Inr None \<and> \<not> (interval = 0 \<or> left \<le> interval)")
    case False
    then have "snd (poll_loop f left interval ex w) = w'
        \<or> snd (poll_loop f left interval ex w) = sleep left w'"
      using f by (auto simp: poll_loop.simps [of f left interval ex w]
          split: sum.splits option.splits)
    then show ?thesis
      using es by (auto simp: sleep_def)
  next
    case True
    then have "poll_loop f left interval ex w
        = poll_loop f (left - interval) interval ex (sleep interval w')"
      using f by (simp add: poll_loop.simps [of f left interval ex w])
    moreover from True have "left - interval < left"
      by simp
    from less.IH [OF this, of "sleep interval w'"] obtain es' where
      "events (snd (poll_loop f (left - interval) interval ex (sleep interval w')))
        = events (sleep interval w') @ es'"
      by auto
    ultimately show ?thesis
      using es by (simp add: sleep_def)
  qed
qed

lemma wait_for_daemon_healthy_events:
  "\<exists>es. events (snd (wait_for_daemon_healthy daemon_at proc_at interval w)) = events w @ es"
  unfolding wait_for_daemon_healthy_def poll_until_def
  by (rule poll_loop_events) (rule wait_check_events)

text \<open>
  The poll that is the first to find the process gone ends the wait with the error that
  tells how the process ended, at the time of that poll.
\<close>

lemma wait_exit_seen:
  assumes "0 < interval"
    and "k * interval < 5000"
    and "\<forall>j\<le>k. \<not> probe_healthy (daemon_at (clock w + j * interval))"
    and "\<forall>j<k. proc_at (clock w + j * interval) = None"
    and "proc_at (clock w + k * interval) = Some status"
  shows "fst (wait_for_daemon_healthy daemon_at proc_at interval w)
           = Inl (EdenStartError (exited_message status))"
    and "clock (snd (wait_for_daemon_healthy daemon_at proc_at interval w))
           = clock w + k * interval"
  using poll_loop_exit_seen [OF assms(1) _ assms(3,4,5), of 5000 timeout_ex] assms(2)
  by (simp_all add: wait_for_daemon_healthy_def poll_until_def)

text \<open>
  Claim C4. \<open>spawn\<close> is called in background mode at the time of \<open>w\<close>, finds the service
  not healthy, and gets as far as starting the process: the privilege decision, the log
  directory and the log file raise nothing. The readiness poll then polls every
  \<open>interval\<close> milliseconds. If poll number \<open>k\<close>, made before the five seconds are over, is
  the first to find the process gone, and no probe up to then has reported the service
  healthy, \<open>spawn\<close> raises \<open>EdenStartError\<close> with the exit status, or the signal, of the
  process: not the time-out error, and at the time of that poll, less than five seconds
  after the call. The process had been started.
\<close>

theorem spawn_exit_seen:
  assumes "\<not> gdb" and "\<not> foreground"
    and "with_privilege h daemon_binary
           (case extra_args of None \<Rightarrow> [daemon_binary, ''--edenDir'', config_dir]
            | Some args \<Rightarrow> [daemon_binary, ''--edenDir'', config_dir] @ args)
           (snd (check_health (daemon_at (clock w)) w)) = (Inr cmd, w2)"
    and "get_or_create_dir (dirname (get_log_path config_dir)) (log_event EvEnviron w2)
           = (Inr log_dir, w4)"
    and "append_file (get_log_path config_dir)
           [Chars (timestamp h @ '': starting edenfs'' @ [CHR 0x0A])] w4 = (Inr (), w5)"
    and "0 < interval"
    and "k * interval < 5000"
    and "\<forall>j\<le>k. \<not> probe_healthy (daemon_at (clock w + j * interval))"
    and "\<forall>j<k. proc_at (clock w + j * interval) = None"
    and "proc_at (clock w + k * interval) = Some status"
  shows "fst (spawn config_dir h daemon_at proc_at interval daemon_binary extra_args gdb
                foreground w) = Raised (EdenStartError (exited_message status))
       \<and> fst (spawn config_dir h daemon_at proc_at interval daemon_binary extra_args gdb
                foreground w) \<noteq> Raised timeout_ex
       \<and> clock (snd (spawn config_dir h daemon_at proc_at interval daemon_binary extra_args gdb
                       foreground w)) = clock w + k * interval
       \<and> clock (snd (spawn config_dir h daemon_at proc_at interval daemon_binary extra_args gdb
                       foreground w)) < clock w + 5000
       \<and> EvPopen cmd (build_eden_environment (environ h))
           \<in> set (events (snd (spawn config_dir h daemon_at proc_at interval daemon_binary
                                 extra_args gdb foreground w)))"
proof -
  let ?env = "build_eden_environment (environ h)"
  let ?w = "log_event (EvPopen cmd ?env) w5"
  obtain hi w1 where c: "check_health (daemon_at (clock w)) w = (hi, w1)"
    by (cases "check_health (daemon_at (clock w)) w")
  from assms(8) have "\<not> probe_healthy (daemon_at (clock w))"
    by (metis add.right_neutral le0 mult_zero_left)
  with c have sick: "\<not> is_healthy hi"
    using is_healthy_check_health [of "daemon_at (clock w)" w] by simp
  \<comment> \<open>the wait starts at the time of the call\<close>
  have "clock w2 = clock w"
    using arg_cong [OF assms(3), of "\<lambda>x. clock (snd x)"] by simp
  moreover have "clock w4 = clock w2"
    using arg_cong [OF assms(4), of "\<lambda>x. clock (snd x)"] by simp
  moreover have "clock w5 = clock w4"
    using arg_cong [OF assms(5), of "\<lambda>x. clock (snd x)"] by simp
  ultimately have now: "clock ?w = clock w"
    by simp
  obtain r w6 where wt: "wait_for_daemon_healthy daemon_at proc_at interval ?w = (r, w6)"
    by (cases "wait_for_daemon_healthy daemon_at proc_at interval ?w")
  have "fst (wait_for_daemon_healthy daemon_at proc_at interval ?w)
          = Inl (EdenStartError (exited_message status))"
    and "clock (snd (wait_for_daemon_healthy daemon_at proc_at interval ?w))
          = clock ?w + k * interval"
    using assms(6-10) unfolding now [symmetric] by (rule wait_exit_seen)+
  with wt now have r: "r = Inl (EdenStartError (exited_message status))"
    and t: "clock w6 = clock w + k * interval"
    by simp_all
  from wait_for_daemon_healthy_events [of daemon_at proc_at interval ?w] wt
  obtain es where "events w6 = events ?w @ es"
    by auto
  then have started: "EvPopen cmd ?env \<in> set (events w6)"
    by simp
  have "spawn config_dir h daemon_at proc_at interval daemon_binary extra_args gdb foreground w
      = (Raised (EdenStartError (exited_message status)), w6)"
    using assms(1-5) c sick wt r by (simp add: spawn_def Let_def)
  with t started assms(7) show ?thesis
    using exited_is_not_timeout [of status] by simp
qed

text \<open>
  The service cannot be reached, the user is not root, and the registry \<open>/r\<close> has no log
  directory yet. A process that is gone at once with exit status 1 ends \<open>spawn\<close> at its
  first poll; a process killed with signal 9 after half a second ends it at the poll at
  600 milliseconds, the first to see it.
\<close>

theorem spawn_exit_seen_witness:
  "fst (spawn ''/r'' demo_host (\<lambda>t. absent_daemon) (\<lambda>t. Some 1) 200 ''/usr/bin/edenfs'' None
          False False demo_world)
     = Raised (EdenStartError ''edenfs exited before becoming healthy: exit status 1'')
   \<and> clock (snd (spawn ''/r'' demo_host (\<lambda>t. absent_daemon) (\<lambda>t. Some 1) 200
                   ''/usr/bin/edenfs'' None False False demo_world)) = 0
   \<and> fst (spawn ''/r'' demo_host (\<lambda>t. absent_daemon)
            (\<lambda>t. if t < 500 then None else Some (- 9)) 200 ''/usr/bin/edenfs'' None
            False False demo_world)
     = Raised (EdenStartError ''edenfs exited before becoming healthy: terminated with signal 9'')
   \<and> clock (snd (spawn ''/r'' demo_host (\<lambda>t. absent_daemon)
                   (\<lambda>t. if t < 500 then None else Some (- 9)) 200 ''/usr/bin/edenfs'' None
                   False False demo_world)) = 600"
proof -
  let ?base = "[''/usr/bin/edenfs'', ''--edenDir'', ''/r'']"
  let ?cmd = "[''/usr/bin/sudo'', ''-E'', ''/usr/bin/edenfs'', ''--edenDir'', ''/r'']"
  let ?w1 = "snd (check_health absent_daemon demo_world)"
  let ?w2 = "snd (with_privilege demo_host ''/usr/bin/edenfs'' ?base ?w1)"
  let ?w4 = "snd (get_or_create_dir (dirname (get_log_path ''/r'')) (log_event EvEnviron ?w2))"
  let ?line = "[Chars (timestamp demo_host @ '': starting edenfs'' @ [CHR 0x0A])]"
  let ?w5 = "snd (append_file (get_log_path ''/r'') ?line ?w4)"
  have d: "\<not> probe_healthy absent_daemon"
    by (simp add: probe_healthy_def absent_daemon_def)
  have c: "clock demo_world = 0"
    by (simp add: demo_world_def)
  have m1: "exited_message 1 = ''edenfs exited before becoming healthy: exit status 1''"
    by (simp add: exited_message_def str_int_def str_nat.simps digit_char_def)
  have m9: "exited_message (- 9)
      = ''edenfs exited before becoming healthy: terminated with signal 9''"
    by (simp add: exited_message_def str_int_def str_nat.simps digit_char_def)
  have "fst (with_privilege demo_host ''/usr/bin/edenfs'' ?base ?w1) = Inr ?cmd"
    by code_simp
  then have p: "with_privilege demo_host ''/usr/bin/edenfs''
      (case None of None \<Rightarrow> ?base | Some args \<Rightarrow> ?base @ args)
      (snd (check_health ((\<lambda>t. absent_daemon) (clock demo_world)) demo_world)) = (Inr ?cmd, ?w2)"
    by (simp add: prod_eq_iff)
  have "fst (get_or_create_dir (dirname (get_log_path ''/r'')) (log_event EvEnviron ?w2))
      = Inr ''/r/logs''"
    by code_simp
  then have l: "get_or_create_dir (dirname (get_log_path ''/r'')) (log_event EvEnviron ?w2)
      = (Inr ''/r/logs'', ?w4)"
    by (simp add: prod_eq_iff)
  have "fst (append_file (get_log_path ''/r'') ?line ?w4) = Inr ()"
    by code_simp
  then have a: "append_file (get_log_path ''/r'') ?line ?w4 = (Inr (), ?w5)"
    by (simp add: prod_eq_iff)
  have now: "fst (spawn ''/r'' demo_host (\<lambda>t. absent_daemon) (\<lambda>t. Some 1) 200
          ''/usr/bin/edenfs'' None False False demo_world)
       = Raised (EdenStartError (exited_message 1))
    \<and> clock (snd (spawn ''/r'' demo_host (\<lambda>t. absent_daemon) (\<lambda>t. Some 1) 200
          ''/usr/bin/edenfs'' None False False demo_world))
       = clock demo_world + 0 * 200"
    using spawn_exit_seen [where gdb = False and foreground = False and h = demo_host
        and daemon_binary = "''/usr/bin/edenfs''" and extra_args = None and config_dir = "''/r''"
        and daemon_at = "\<lambda>t. absent_daemon" and w = demo_world and proc_at = "\<lambda>t. Some 1"
        and interval = 200 and k = 0 and status = 1, OF _ _ p l a] d
    by simp
  have "\<forall>j<3. (if clock demo_world + j * 200 < 500 then None else Some (- 9 :: int)) = None"
    by (auto simp: c less_Suc_eq numeral_3_eq_3)
  then have later: "fst (spawn ''/r'' demo_host (\<lambda>t. absent_daemon)
            (\<lambda>t. if t < 500 then None else Some (- 9)) 200 ''/usr/bin/edenfs'' None
            False False demo_world)
       = Raised (EdenStartError (exited_message (- 9)))
    \<and> clock (snd (spawn ''/r'' demo_host (\<lambda>t. absent_daemon)
                   (\<lambda>t. if t < 500 then None else Some (- 9)) 200 ''/usr/bin/edenfs'' None
                   False False demo_world))
       = clock demo_world + 3 * 200"
    using spawn_exit_seen [where gdb = False and foreground = False and h = demo_host
        and daemon_binary = "''/usr/bin/edenfs''" and extra_args = None and config_dir = "''/r''"
        and daemon_at = "\<lambda>t. absent_daemon" and w = demo_world
        and proc_at = "\<lambda>t. if t < 500 then None else Some (- 9)"
        and interval = 200 and k = 3 and status = "- 9", OF _ _ p l a] d
    by (simp add: c)
  from now later show ?thesis
    by (simp add: m1 m9 c)
qed

end
